theory Spec2Isabelle
  imports Complex_Main "HOL-Library.Multiset"
begin

section \<open>JavaScript strings and arrays\<close>

text \<open>
  The plan pipeline of the app (parsing, week tagging, run-day cap, history digest,
  calendar events, weekly orchestration) is embedded function by function.

  Strings are \<^typ>\<open>string\<close>; the development is about ASCII text: \<open>toLowerCase\<close> maps
  \<open>A..Z\<close> to \<open>a..z\<close>, \<open>trim\<close> removes the ASCII white space (tab, line feed, vertical tab,
  form feed, carriage return, space). A cell of a table row is a \<^typ>\<open>string option\<close>:
  \<open>None\<close> is what JavaScript reads as \<open>undefined\<close> (an index past the end of the row, or a
  position that an out-of-range assignment skipped over).
\<close>

definition toLowerChar :: "char \<Rightarrow> char" where
  "toLowerChar c =
     (case map_of (zip ''ABCDEFGHIJKLMNOPQRSTUVWXYZ'' ''abcdefghijklmnopqrstuvwxyz'') c of
        None \<Rightarrow> c
      | Some l \<Rightarrow> l)"

definition toLowerCase :: "string \<Rightarrow> string" where
  "toLowerCase s = map toLowerChar s"

definition isWhiteSpace :: "char \<Rightarrow> bool" where
  "isWhiteSpace c = (c \<in> set [CHR 0x09, CHR 0x0A, CHR 0x0B, CHR 0x0C, CHR 0x0D, CHR '' ''])"

definition trimStart :: "string \<Rightarrow> string" where
  "trimStart s = dropWhile isWhiteSpace s"

definition trim :: "string \<Rightarrow> string" where
  "trim s = rev (dropWhile isWhiteSpace (rev (dropWhile isWhiteSpace s)))"

fun startsWith :: "string \<Rightarrow> string \<Rightarrow> bool" where
  "startsWith s [] = True"
| "startsWith [] (p # ps) = False"
| "startsWith (c # cs) (p # ps) = (c = p \<and> startsWith cs ps)"

definition endsWith :: "string \<Rightarrow> string \<Rightarrow> bool" where
  "endsWith s p = startsWith (rev s) (rev p)"

text \<open>\<open>s.includes(p)\<close>: \<open>p\<close> occurs in \<open>s\<close> as a contiguous substring.\<close>

fun includesStr :: "string \<Rightarrow> string \<Rightarrow> bool" where
  "includesStr [] p = (p = [])"
| "includesStr (c # cs) p = (startsWith (c # cs) p \<or> includesStr cs p)"

text \<open>\<open>s.split(sep)\<close> for a one-character separator; the result is never empty.\<close>

fun splitOn :: "char \<Rightarrow> string \<Rightarrow> string list" where
  "splitOn sep [] = [[]]"
| "splitOn sep (c # cs) =
     (if c = sep then [] # splitOn sep cs
      else (case splitOn sep cs of
              [] \<Rightarrow> [[c]]
            | w # ws \<Rightarrow> (c # w) # ws))"

fun joinWith :: "string \<Rightarrow> string list \<Rightarrow> string" where
  "joinWith sep [] = []"
| "joinWith sep [x] = x"
| "joinWith sep (x # y # ys) = x @ sep @ joinWith sep (y # ys)"

text \<open>
  \<open>xs.slice(start, end)\<close> and \<open>xs.slice(start)\<close>: a negative bound counts from the end,
  and both bounds are clamped to the array.
\<close>

definition sliceBound :: "nat \<Rightarrow> int \<Rightarrow> nat" where
  "sliceBound len k = (if k < 0 then nat (max (int len + k) 0) else min (nat k) len)"

definition jsSlice :: "'a list \<Rightarrow> int \<Rightarrow> int \<Rightarrow> 'a list" where
  "jsSlice xs start stop =
     (let lo = sliceBound (length xs) start; hi = sliceBound (length xs) stop
      in take (hi - lo) (drop lo xs))"

definition jsSliceFrom :: "'a list \<Rightarrow> int \<Rightarrow> 'a list" where
  "jsSliceFrom xs start = drop (sliceBound (length xs) start) xs"

text \<open>\<open>xs.findIndex(p)\<close>; \<open>None\<close> stands for the result \<open>-1\<close>.\<close>

fun findIndexFrom :: "nat \<Rightarrow> ('a \<Rightarrow> bool) \<Rightarrow> 'a list \<Rightarrow> nat option" where
  "findIndexFrom i p [] = None"
| "findIndexFrom i p (x # xs) = (if p x then Some i else findIndexFrom (Suc i) p xs)"

definition findIndex :: "('a \<Rightarrow> bool) \<Rightarrow> 'a list \<Rightarrow> nat option" where
  "findIndex p xs = findIndexFrom 0 p xs"

type_synonym cell = "string option"

text \<open>\<open>row[i]\<close>, the operator \<open>??\<close>, truthiness of a cell, and the assignment \<open>row[i] = v\<close>,
  which extends a row that is too short.\<close>

definition cellAt :: "cell list \<Rightarrow> nat \<Rightarrow> cell" where
  "cellAt row i = (if i < length row then row ! i else None)"

definition orElse :: "'a option \<Rightarrow> 'a \<Rightarrow> 'a" where
  "orElse v d = (case v of None \<Rightarrow> d | Some x \<Rightarrow> x)"

definition truthy :: "cell \<Rightarrow> bool" where
  "truthy v = (case v of None \<Rightarrow> False | Some s \<Rightarrow> s \<noteq> [])"

definition setCell :: "cell list \<Rightarrow> nat \<Rightarrow> string \<Rightarrow> cell list" where
  "setCell row i v =
     (if i < length row then row[i := Some v]
      else row @ replicate (i - length row) None @ [Some v])"

text \<open>
  Decimal rendering of an integral number, as a template literal renders it (for
  magnitudes below \<open>10^21\<close>, where JavaScript switches to exponent notation).
\<close>

definition digitChar :: "nat \<Rightarrow> char" where
  "digitChar d = ''0123456789'' ! d"

function digitsOf :: "nat \<Rightarrow> string" where
  "digitsOf n = (if n < 10 then [digitChar n] else digitsOf (n div 10) @ [digitChar (n mod 10)])"
  by pat_completeness auto
termination
  by (relation "measure id") auto

declare digitsOf.simps [simp del]

definition numberToString :: "int \<Rightarrow> string" where
  "numberToString n = (if n < 0 then CHR ''-'' # digitsOf (nat (- n)) else digitsOf (nat n))"

section \<open>Numbers read from text\<close>

text \<open>
  \<open>Number.parseInt(s, 10)\<close>: leading white space is skipped, one sign is read, then the
  longest run of decimal digits; no digit gives \<open>NaN\<close>. The value is an IEEE double, so a
  magnitude that rounds to \<open>2^1024\<close> or more is an infinity. \<open>Finite n\<close> carries the
  mathematical integer that was read.
\<close>

datatype jsnumber = NaN | PosInfinity | NegInfinity | Finite int

definition isDigit :: "char \<Rightarrow> bool" where
  "isDigit c = (c \<in> set ''0123456789'')"

definition digitValue :: "char \<Rightarrow> int" where
  "digitValue c = (case map_of (zip ''0123456789'' [0, 1, 2, 3, 4, 5, 6, 7, 8, 9]) c of
                     None \<Rightarrow> 0
                   | Some d \<Rightarrow> d)"

definition decimalValue :: "string \<Rightarrow> int" where
  "decimalValue ds = foldl (\<lambda>acc c. 10 * acc + digitValue c) 0 ds"

definition parseInt10 :: "string \<Rightarrow> jsnumber" where
  "parseInt10 s =
     (let t = trimStart s;
          negative = (t \<noteq> [] \<and> hd t = CHR ''-'');
          u = (if t \<noteq> [] \<and> (hd t = CHR ''+'' \<or> hd t = CHR ''-'') then tl t else t);
          z = takeWhile isDigit u
      in if z = [] then NaN
         else if 2 ^ 1024 - 2 ^ 970 \<le> decimalValue z
              then (if negative then NegInfinity else PosInfinity)
         else Finite (if negative then - decimalValue z else decimalValue z))"

definition isFinite :: "jsnumber \<Rightarrow> bool" where
  "isFinite x = (case x of Finite n \<Rightarrow> True | _ \<Rightarrow> False)"

definition parseRunDayCap :: "string \<Rightarrow> int" where
  "parseRunDayCap v =
     (case parseInt10 (trim v) of
        Finite parsed \<Rightarrow> min (max parsed 1) 7
      | _ \<Rightarrow> 4)"

section \<open>Doubles and sorting\<close>

text \<open>
  A finite IEEE 754 double is the rational number it denotes. \<open>toDouble\<close> rounds a rational
  \<open>p / q\<close> to the nearest double: with \<open>2^e \<le> |p / q| < 2^(e+1)\<close> the result is the multiple
  of \<open>2^(e-52)\<close> nearest to it (a significand of 53 bits), the even multiple of two that are
  equally near. An arithmetic operation of the source is the exact operation followed by
  this rounding. The limits of the exponent are not modelled: the numbers computed below
  are row indices, small integers, their products with \<open>0.1\<close> and \<open>0.01\<close> and differences of
  those, all far from overflow and from the subnormal range. \<open>NaN\<close> is represented apart,
  where it can arise.
\<close>

function bitLength :: "int \<Rightarrow> int" where
  "bitLength n = (if n \<le> 0 then 0 else 1 + bitLength (n div 2))"
  by pat_completeness auto

termination
  by (relation "measure nat") auto

declare bitLength.simps [simp del]

text \<open>The ratio \<open>p / q\<close> times \<open>2^s\<close>, as a numerator and a denominator.\<close>

definition shiftedRatio :: "int \<Rightarrow> int \<Rightarrow> int \<Rightarrow> int \<times> int" where
  "shiftedRatio p q s = (if 0 \<le> s then (p * 2 ^ nat s, q) else (p, q * 2 ^ nat (- s)))"

text \<open>The exponent \<open>e\<close> with \<open>2^e \<le> p / q < 2^(e+1)\<close>, for positive \<open>p\<close> and \<open>q\<close>.\<close>

definition floorLog2 :: "int \<Rightarrow> int \<Rightarrow> int" where
  "floorLog2 p q =
     (let e = bitLength p - bitLength q;
          (n, d) = shiftedRatio p q (- e)
      in if d \<le> n then e else e - 1)"

text \<open>The integer nearest to \<open>n / d\<close>, the even one of two that are equally near.\<close>

definition roundedQuotient :: "int \<Rightarrow> int \<Rightarrow> int" where
  "roundedQuotient n d =
     (let k = n div d;
          r = n mod d
      in if 2 * r < d then k else if d < 2 * r then k + 1 else if even k then k else k + 1)"

definition toDouble :: "rat \<Rightarrow> rat" where
  "toDouble x =
     (let (p, q) = quotient_of x
      in if p = 0 then 0
         else (let e = floorLog2 \<bar>p\<bar> q;
                   (n, d) = shiftedRatio \<bar>p\<bar> q (52 - e);
                   (n', d') = shiftedRatio (sgn p * roundedQuotient n d) 1 (e - 52)
               in of_int n' / of_int d'))"

definition doubleAdd :: "rat \<Rightarrow> rat \<Rightarrow> rat" where
  "doubleAdd x y = toDouble (x + y)"

definition doubleSub :: "rat \<Rightarrow> rat \<Rightarrow> rat" where
  "doubleSub x y = toDouble (x - y)"

definition doubleMul :: "rat \<Rightarrow> rat \<Rightarrow> rat" where
  "doubleMul x y = toDouble (x * y)"

text \<open>
  \<open>xs.sort(compare)\<close>: a stable sort, written as insertion sort. An element goes before
  the first element that the comparison function does not put ahead of it. Every stable
  sort gives this order when the comparison function is a consistent ordering; when it is
  not, the order is left to the implementation, and this is one of the orders it may give.
\<close>

fun insertSorted :: "('a \<Rightarrow> 'a \<Rightarrow> rat) \<Rightarrow> 'a \<Rightarrow> 'a list \<Rightarrow> 'a list" where
  "insertSorted compare x [] = [x]"
| "insertSorted compare x (y # ys) =
     (if compare x y \<le> 0 then x # y # ys else y # insertSorted compare x ys)"

definition sortWith :: "('a \<Rightarrow> 'a \<Rightarrow> rat) \<Rightarrow> 'a list \<Rightarrow> 'a list" where
  "sortWith compare xs = foldr (insertSorted compare) xs []"

section \<open>Plan tables\<close>

record PlanTable =
  headers :: "string list"
  rows :: "cell list list"

definition WEEKDAY_NAMES :: "string list" where
  "WEEKDAY_NAMES =
     [''Monday'', ''Tuesday'', ''Wednesday'', ''Thursday'', ''Friday'', ''Saturday'', ''Sunday'']"

text \<open>
  \<open>DAY_INDEX[key]\<close>. The object is a literal with sixteen properties of its own, so a
  lookup also finds what it inherits from \<open>Object.prototype\<close>: for one of the names below
  the answer is not \<open>undefined\<close> but a function or an object. Two of these names are
  spelled in lower case only, \<open>constructor\<close> and \<open>__proto__\<close>, and so survive the
  \<open>toLowerCase\<close> that precedes every lookup. \<open>None\<close> is \<open>undefined\<close>; an inherited value is
  told apart by the name under which it was found (different names give different
  objects).
\<close>

datatype dayValue = DayOffset nat | InheritedObject string

definition ownDayIndex :: "(string \<times> nat) list" where
  "ownDayIndex =
     [(''monday'', 0), (''mon'', 0), (''tuesday'', 1), (''tue'', 1), (''tues'', 1),
      (''wednesday'', 2), (''wed'', 2), (''thursday'', 3), (''thu'', 3), (''thurs'', 3),
      (''friday'', 4), (''fri'', 4), (''saturday'', 5), (''sat'', 5),
      (''sunday'', 6), (''sun'', 6)]"

definition objectPrototypeKeys :: "string list" where
  "objectPrototypeKeys =
     [''constructor'', ''__proto__'', ''hasOwnProperty'', ''isPrototypeOf'',
      ''propertyIsEnumerable'', ''toLocaleString'', ''toString'', ''valueOf'',
      ''__defineGetter__'', ''__defineSetter__'', ''__lookupGetter__'', ''__lookupSetter__'']"

definition DAY_INDEX :: "string \<Rightarrow> dayValue option" where
  "DAY_INDEX key =
     (case map_of ownDayIndex key of
        Some offset \<Rightarrow> Some (DayOffset offset)
      | None \<Rightarrow> if key \<in> set objectPrototypeKeys then Some (InheritedObject key) else None)"

definition isRestLikeWorkout :: "string \<Rightarrow> bool" where
  "isRestLikeWorkout workoutType =
     (let normalized = toLowerCase workoutType
      in includesStr normalized ''rest'' \<or> includesStr normalized ''off'')"

definition isWeekHeader :: "string \<Rightarrow> bool" where
  "isWeekHeader header = (toLowerCase header = ''week'')"

definition isDayHeader :: "string \<Rightarrow> bool" where
  "isDayHeader header = (toLowerCase header = ''day'')"

definition isWorkoutHeader :: "string \<Rightarrow> bool" where
  "isWorkoutHeader header = includesStr (toLowerCase header) ''workout''"

definition isDetailsHeader :: "string \<Rightarrow> bool" where
  "isDetailsHeader header = includesStr (toLowerCase header) ''details''"

definition isRationaleHeader :: "string \<Rightarrow> bool" where
  "isRationaleHeader header = includesStr (toLowerCase header) ''rationale''"

definition weekLabel :: "int \<Rightarrow> string" where
  "weekLabel weekNumber = ''Week '' @ numberToString weekNumber"

subsection \<open>Week tagging\<close>

definition enforceExpectedWeekTable :: "int \<Rightarrow> PlanTable \<Rightarrow> PlanTable" where
  "enforceExpectedWeekTable weekNumber table =
     (case findIndex isWeekHeader (headers table) of
        None \<Rightarrow>
          \<lparr>headers = ''Week'' # headers table,
           rows = map (\<lambda>row. Some (weekLabel weekNumber) # row) (rows table)\<rparr>
      | Some weekIndex \<Rightarrow>
          \<lparr>headers = headers table,
           rows = map (\<lambda>row. setCell row weekIndex (weekLabel weekNumber)) (rows table)\<rparr>)"

definition enforceExpectedWeek :: "PlanTable list \<Rightarrow> int \<Rightarrow> PlanTable list" where
  "enforceExpectedWeek tables weekNumber = map (enforceExpectedWeekTable weekNumber) tables"

subsection \<open>Run-day cap\<close>

text \<open>
  The score of an active row, computed in doubles as the source does. When the day cell
  names an inherited property, \<open>dayOrder\<close> is a function or an object, the product
  \<open>dayOrder * 0.1\<close> is \<open>NaN\<close> and so is the score: \<open>None\<close>.
\<close>

definition isLongWorkout :: "string \<Rightarrow> bool" where
  "isLongWorkout workout = includesStr (toLowerCase workout) ''long''"

definition isQualityWorkout :: "string \<Rightarrow> bool" where
  "isQualityWorkout workout =
     (let w = toLowerCase workout
      in includesStr w ''interval'' \<or> includesStr w ''tempo'' \<or> includesStr w ''threshold''
         \<or> includesStr w ''hill'' \<or> includesStr w ''speed'')"

definition rowScore :: "nat \<Rightarrow> nat \<Rightarrow> dayValue \<Rightarrow> cell list \<Rightarrow> nat \<Rightarrow> rat option" where
  "rowScore dayIndex workoutIndex longRunDayIndex row idx =
     (let workout = orElse (cellAt row workoutIndex) '''';
          day = toLowerCase (orElse (cellAt row dayIndex) '''');
          dayOrder = orElse (DAY_INDEX day) (DayOffset 7);
          isLong = isLongWorkout workout;
          isLongOnPreferredDay = (isLong \<and> dayOrder = longRunDayIndex);
          isQuality = isQualityWorkout workout
      in case dayOrder of
           InheritedObject name \<Rightarrow> None
         | DayOffset n \<Rightarrow>
             Some (doubleSub
                     (doubleSub
                        (doubleAdd
                           (doubleAdd (if isLongOnPreferredDay then 100 else 0)
                              (if isQuality then 50 else 0))
                           (if isLong then 25 else 0))
                        (doubleMul (of_nat n) (toDouble (1 / 10))))
                     (doubleMul (of_nat idx) (toDouble (1 / 100)))))"

text \<open>
  The comparison function \<open>(a, b) => b.score - a.score\<close>. The difference of two doubles has
  the sign of their exact difference, which is what is returned here; a \<open>NaN\<close> result counts
  as \<open>+0\<close> in the sort. So the rows are sorted by descending score, earlier rows first
  among equals. With a \<open>NaN\<close> score the comparison function is not a consistent ordering.
\<close>

definition compareScores :: "nat \<times> rat option \<Rightarrow> nat \<times> rat option \<Rightarrow> rat" where
  "compareScores a b =
     (case snd b of
        None \<Rightarrow> 0
      | Some scoreB \<Rightarrow> (case snd a of None \<Rightarrow> 0 | Some scoreA \<Rightarrow> scoreB - scoreA))"

definition isActiveRow :: "nat \<Rightarrow> cell list \<Rightarrow> bool" where
  "isActiveRow workoutIndex row = (\<not> isRestLikeWorkout (orElse (cellAt row workoutIndex) ''''))"

definition indexed :: "'a list \<Rightarrow> ('a \<times> nat) list" where
  "indexed xs = zip xs [0..<length xs]"

definition demoteRow :: "nat \<Rightarrow> nat option \<Rightarrow> nat option \<Rightarrow> int \<Rightarrow> cell list \<Rightarrow> cell list" where
  "demoteRow workoutIndex detailsIndex rationaleIndex runDayCap row =
     (let r1 = setCell row workoutIndex ''Rest Day'';
          r2 = (case detailsIndex of
                  None \<Rightarrow> r1
                | Some d \<Rightarrow> setCell r1 d ''Recovery / optional mobility'');
          r3 = (case rationaleIndex of
                  None \<Rightarrow> r2
                | Some r \<Rightarrow>
                    setCell r2 r (''Respect '' @ numberToString runDayCap @ '' training days/week''))
      in r3)"

definition keepIndexes :: "nat \<Rightarrow> nat \<Rightarrow> dayValue \<Rightarrow> int \<Rightarrow> cell list list \<Rightarrow> nat list" where
  "keepIndexes dayIndex workoutIndex longRunDayIndex runDayCap rws =
     (let activeRows = filter (\<lambda>(row, idx). isActiveRow workoutIndex row) (indexed rws);
          scoredRows = map (\<lambda>(row, idx).
                              (idx, rowScore dayIndex workoutIndex longRunDayIndex row idx))
                           activeRows;
          sorted = sortWith compareScores scoredRows
      in map fst (jsSlice sorted 0 runDayCap))"

definition clampRow ::
  "nat \<Rightarrow> nat option \<Rightarrow> nat option \<Rightarrow> int \<Rightarrow> nat list \<Rightarrow> cell list \<times> nat \<Rightarrow> cell list" where
  "clampRow workoutIndex detailsIndex rationaleIndex runDayCap keep p =
     (if snd p \<in> set keep \<or> \<not> isActiveRow workoutIndex (fst p) then fst p
      else demoteRow workoutIndex detailsIndex rationaleIndex runDayCap (fst p))"

definition clampTable :: "int \<Rightarrow> string \<Rightarrow> PlanTable \<Rightarrow> PlanTable" where
  "clampTable runDayCap longRunDay table =
     (let dayIndex = findIndex isDayHeader (headers table);
          workoutIndex = findIndex isWorkoutHeader (headers table);
          detailsIndex = findIndex isDetailsHeader (headers table);
          rationaleIndex = findIndex isRationaleHeader (headers table)
      in case dayIndex of
           None \<Rightarrow> table
         | Some di \<Rightarrow>
             (case workoutIndex of
                None \<Rightarrow> table
              | Some wi \<Rightarrow>
                  if int (length (filter (isActiveRow wi) (rows table))) \<le> runDayCap then table
                  else
                    (let longRunDayIndex = orElse (DAY_INDEX (toLowerCase longRunDay)) (DayOffset 6);
                         keep = keepIndexes di wi longRunDayIndex runDayCap (rows table)
                     in \<lparr>headers = headers table,
                         rows = map (clampRow wi detailsIndex rationaleIndex runDayCap keep)
                                    (indexed (rows table))\<rparr>)))"

definition clampWeekToRunDayCap :: "PlanTable list \<Rightarrow> int \<Rightarrow> string \<Rightarrow> PlanTable list" where
  "clampWeekToRunDayCap tables runDayCap longRunDay = map (clampTable runDayCap longRunDay) tables"

text \<open>The indices of the active rows, in row order (used to state and prove the results).\<close>

definition activeIndexes :: "nat \<Rightarrow> cell list list \<Rightarrow> nat list" where
  "activeIndexes wi rws = map snd (filter (\<lambda>(row, idx). isActiveRow wi row) (indexed rws))"

definition nonRestCount :: "PlanTable \<Rightarrow> nat" where
  "nonRestCount table =
     (case findIndex isWorkoutHeader (headers table) of
        None \<Rightarrow> 0
      | Some wi \<Rightarrow> length (filter (isActiveRow wi) (rows table)))"

section \<open>Example inputs\<close>

definition noDayTable :: PlanTable where
  "noDayTable =
     \<lparr>headers = [''Date'', ''Workout''],
      rows = [[Some ''Monday'', Some ''Easy run''], [Some ''Tuesday'', Some ''Tempo''],
              [Some ''Wednesday'', Some ''Long run'']]\<rparr>"

definition aliasedTable :: PlanTable where
  "aliasedTable =
     \<lparr>headers = [''Week'', ''Day'', ''Workout Details''],
      rows = [[Some ''Week 1'', Some ''Monday'', Some ''Easy run''],
              [Some ''Week 1'', Some ''Tuesday'', Some ''Tempo'']]\<rparr>"

section \<open>Markdown tables\<close>

definition parseCells :: "string \<Rightarrow> string list" where
  "parseCells line = map trim (splitOn CHR ''|'' (jsSlice line 1 (- 1)))"

definition isPipeLine :: "string \<Rightarrow> bool" where
  "isPipeLine line = (startsWith line ''|'' \<and> endsWith line ''|'')"

text \<open>The repair of one data row to the width of the header.\<close>

definition normalizeRow :: "nat \<Rightarrow> string list \<Rightarrow> string list" where
  "normalizeRow width row =
     (if length row = width then row
      else if width < length row
        then jsSlice row 0 (int width - 1) @ [joinWith '' | '' (jsSliceFrom row (int width - 1))]
      else row @ replicate (width - length row) [])"

text \<open>
  One block of consecutive pipe lines: \<open>None\<close> when the block is skipped (fewer than three
  lines, no \<open>---\<close> in the second line, or no row left), otherwise the table that is pushed.
\<close>

definition tableOfBlock :: "string list \<Rightarrow> PlanTable option" where
  "tableOfBlock block =
     (if length block < 3 \<or> \<not> includesStr (block ! 1) ''---'' then None
      else
        (let hs = parseCells (block ! 0);
             rws = filter (\<lambda>row. length row = length hs)
                     (map (normalizeRow (length hs)) (map parseCells (jsSliceFrom block 2)))
         in if rws \<noteq> [] then Some \<lparr>headers = hs, rows = map (map Some) rws\<rparr> else None))"

text \<open>The scanning loop of \<open>parseMarkdownTables\<close> over the lines that are left.\<close>

function scanLines :: "string list \<Rightarrow> PlanTable list" where
  "scanLines [] = []"
| "scanLines (l # ls) =
     (if \<not> isPipeLine l then scanLines ls
      else (case tableOfBlock (l # takeWhile isPipeLine ls) of
              None \<Rightarrow> scanLines (dropWhile isPipeLine ls)
            | Some table \<Rightarrow> table # scanLines (dropWhile isPipeLine ls)))"
  by pat_completeness auto
termination
  by (relation "measure length") (auto simp: less_Suc_eq_le length_dropWhile_le)

definition parseMarkdownTables :: "string \<Rightarrow> PlanTable list" where
  "parseMarkdownTables text = scanLines (map trim (splitOn (CHR 0x0A) text))"

text \<open>
  The repair as the specification words it: overflow cells are joined into the last column
  with \<open>" | "\<close>, a short row is padded on the right with empty strings.
\<close>

definition repairToWidth :: "nat \<Rightarrow> string list \<Rightarrow> string list" where
  "repairToWidth width cells =
     (if width < length cells
        then take (width - 1) cells @ [joinWith '' | '' (drop (width - 1) cells)]
      else cells @ replicate (width - length cells) [])"

section \<open>History digest\<close>

definition summaryLine :: "nat option \<Rightarrow> nat option \<Rightarrow> nat option \<Rightarrow> cell list \<Rightarrow> string" where
  "summaryLine dayIndex workoutIndex detailsIndex row =
     (let dayText = (case dayIndex of None \<Rightarrow> ''Day'' | Some i \<Rightarrow> orElse (cellAt row i) ''Day'');
          workout = (case workoutIndex of None \<Rightarrow> ''Run'' | Some i \<Rightarrow> orElse (cellAt row i) ''Run'');
          detailText = (case detailsIndex of None \<Rightarrow> [] | Some i \<Rightarrow> orElse (cellAt row i) [])
      in ''- '' @ dayText @ '': '' @ workout
         @ (if detailText \<noteq> [] then '' ('' @ detailText @ '')'' else []))"

text \<open>The guard at the head of the row loop: the row is left out of the digest.\<close>

definition skipsRow :: "nat option \<Rightarrow> int \<Rightarrow> cell list \<Rightarrow> bool" where
  "skipsRow weekIndex weekNumber row =
     (case weekIndex of
        None \<Rightarrow> False
      | Some wk \<Rightarrow>
          truthy (cellAt row wk)
          \<and> \<not> includesStr (toLowerCase (orElse (cellAt row wk) []))
                (toLowerCase (''week '' @ numberToString weekNumber)))"

definition pushTableLines :: "int \<Rightarrow> string list \<Rightarrow> PlanTable \<Rightarrow> string list" where
  "pushTableLines weekNumber summaryLines table =
     (let weekIndex = findIndex isWeekHeader (headers table);
          dayIndex = findIndex isDayHeader (headers table);
          workoutIndex = findIndex isWorkoutHeader (headers table);
          detailsIndex = findIndex isDetailsHeader (headers table)
      in foldl (\<lambda>acc row. if skipsRow weekIndex weekNumber row then acc
                           else acc @ [summaryLine dayIndex workoutIndex detailsIndex row])
           summaryLines (rows table))"

definition summarizeWeekForHistory :: "PlanTable list \<Rightarrow> int \<Rightarrow> string" where
  "summarizeWeekForHistory tables weekNumber =
     (let summaryLines = foldl (pushTableLines weekNumber) [] tables
      in joinWith [CHR 0x0A]
           ((''Week '' @ numberToString weekNumber @ '' Summary:'') # jsSlice summaryLines 0 7))"

text \<open>
  Membership of a row in week \<open>n\<close> and its bullet, stated directly on the table: the row
  belongs when the table has no week column, when its week cell is missing or empty, or
  when its week cell contains \<open>week n\<close> (ignoring case).
\<close>

definition belongsToWeek :: "int \<Rightarrow> PlanTable \<Rightarrow> cell list \<Rightarrow> bool" where
  "belongsToWeek n table row =
     (case findIndex isWeekHeader (headers table) of
        None \<Rightarrow> True
      | Some wk \<Rightarrow>
          cellAt row wk = None \<or> cellAt row wk = Some []
          \<or> includesStr (toLowerCase (orElse (cellAt row wk) []))
               (toLowerCase (''week '' @ numberToString n)))"

definition bulletOf :: "PlanTable \<Rightarrow> cell list \<Rightarrow> string" where
  "bulletOf table row =
     summaryLine (findIndex isDayHeader (headers table))
       (findIndex isWorkoutHeader (headers table))
       (findIndex isDetailsHeader (headers table)) row"

definition weekBullets :: "int \<Rightarrow> PlanTable list \<Rightarrow> string list" where
  "weekBullets n tables =
     concat (map (\<lambda>table. map (bulletOf table) (filter (belongsToWeek n table) (rows table)))
               tables)"

definition pipeText :: string where
  "pipeText = ''Plan:'' @ [CHR 0x0A] @ ''| Day | Workout |'' @ [CHR 0x0A] @ ''|---|---|''
     @ [CHR 0x0A] @ ''| Mon | Easy | 5 km |'' @ [CHR 0x0A] @ ''| Tue |'' @ [CHR 0x0A] @ ''Done.''"

definition aliasedText :: string where
  "aliasedText = ''| Day | Workout Details |'' @ [CHR 0x0A] @ ''|---|---|''
     @ [CHR 0x0A] @ ''| Monday | Easy run |'' @ [CHR 0x0A] @ ''| Tuesday | Tempo |''"

definition blankWeekTable :: PlanTable where
  "blankWeekTable =
     \<lparr>headers = [''Week'', ''Day'', ''Workout''], rows = [[Some [], Some ''Mon'', Some ''Run'']]\<rparr>"

section \<open>Rows that matter for the run-day cap\<close>

definition scoredRows ::
  "nat \<Rightarrow> nat \<Rightarrow> dayValue \<Rightarrow> cell list list \<Rightarrow> (nat \<times> rat option) list" where
  "scoredRows di wi lr rws =
     map (\<lambda>(row, idx). (idx, rowScore di wi lr row idx))
       (filter (\<lambda>(row, idx). isActiveRow wi row) (indexed rws))"

definition workoutText :: "nat \<Rightarrow> cell list \<Rightarrow> string" where
  "workoutText wi row = orElse (cellAt row wi) []"

definition dayKey :: "nat \<Rightarrow> cell list \<Rightarrow> string" where
  "dayKey di row = toLowerCase (orElse (cellAt row di) [])"

text \<open>
  The rank order of the scored rows: a row is ahead of another when its score is higher, or
  equal with a smaller row index. \<open>rowsAhead\<close> lists the active rows that are ahead of row
  \<open>i\<close>.
\<close>

definition ranksAhead :: "nat \<times> rat option \<Rightarrow> nat \<times> rat option \<Rightarrow> bool" where
  "ranksAhead p q =
     (case snd p of
        None \<Rightarrow> False
      | Some sp \<Rightarrow>
          (case snd q of None \<Rightarrow> False | Some sq \<Rightarrow> sq < sp \<or> (sp = sq \<and> fst p < fst q)))"

definition rowsAhead :: "nat \<Rightarrow> nat \<Rightarrow> dayValue \<Rightarrow> cell list list \<Rightarrow> nat \<Rightarrow> nat list" where
  "rowsAhead di wi lr rws i =
     filter (\<lambda>j. isActiveRow wi (rws ! j)
                 \<and> ranksAhead (j, rowScore di wi lr (rws ! j) j) (i, rowScore di wi lr (rws ! i) i))
       [0..<length rws]"

definition crowdedWeekTable :: PlanTable where
  "crowdedWeekTable =
     \<lparr>headers = [''Week'', ''Day'', ''Workout Type'', ''Details (Distance/Pace/Zone)'', ''Rationale''],
      rows = [[Some ''Week 1'', Some ''Monday'', Some ''Intervals'', Some ''6 x 800m'', Some ''Speed''],
              [Some ''Week 1'', Some ''Monday'', Some ''Hill Repeats'', Some ''8 x 60s'', Some ''Strength''],
              [Some ''Week 1'', Some ''Monday'', Some ''Speed Work'', Some ''10 x 200m'', Some ''Turnover''],
              [Some ''Week 1'', Some ''Tuesday'', Some ''Tempo Run'', Some ''5 km'', Some ''Threshold''],
              [Some ''Week 1'', Some ''Wednesday'', Some ''Easy Run'', Some ''5 km'', Some ''Aerobic''],
              [Some ''Week 1'', Some ''Thursday'', Some ''Easy Run'', Some ''5 km'', Some ''Aerobic''],
              [Some ''Week 1'', Some ''Saturday'', Some ''Easy Run'', Some ''5 km'', Some ''Aerobic''],
              [Some ''Week 1'', Some ''Sunday'', Some ''Long Run'', Some ''16 km'', Some ''Endurance'']]\<rparr>"

text \<open>
  A week whose only header with \<open>workout\<close> is \<open>Workout Details\<close>, and a row whose day cell
  names an inherited property.
\<close>

definition aliasedWeekTable :: PlanTable where
  "aliasedWeekTable =
     \<lparr>headers = [''Week'', ''Day'', ''Workout Details''],
      rows = [[Some ''Week 1'', Some ''Monday'', Some ''Easy Run''],
              [Some ''Week 1'', Some ''Tuesday'', Some ''Tempo Run''],
              [Some ''Week 1'', Some ''Wednesday'', Some ''Easy Run''],
              [Some ''Week 1'', Some ''Thursday'', Some ''Intervals''],
              [Some ''Week 1'', Some ''Friday'', Some ''Easy Run''],
              [Some ''Week 1'', Some ''Saturday'', Some ''Easy Run''],
              [Some ''Week 1'', Some ''Saturday'', Some ''Strides''],
              [Some ''Week 1'', Some ''Sunday'', Some ''Long Run'']]\<rparr>"

definition inheritedDayRow :: "cell list" where
  "inheritedDayRow =
     [Some ''Week 1'', Some ''Constructor'', Some ''Easy Run'', Some ''5 km'', Some ''Aerobic'']"

definition scenarioWeekTable :: PlanTable where
  "scenarioWeekTable =
     \<lparr>headers = [''Week'', ''Day'', ''Workout Type'', ''Details (Distance/Pace/Zone)'', ''Rationale''],
      rows = [[Some ''Week 1'', Some ''Monday'', Some ''Easy Run'', Some ''5 km'', Some ''Aerobic''],
              [Some ''Week 1'', Some ''Tuesday'', Some ''Tempo Run'', Some ''5 km'', Some ''Threshold''],
              [Some ''Week 1'', Some ''Wednesday'', Some ''Easy Run'', Some ''5 km'', Some ''Aerobic''],
              [Some ''Week 1'', Some ''Thursday'', Some ''Intervals'', Some ''6 x 800m'', Some ''Speed''],
              [Some ''Week 1'', Some ''Friday'', Some ''Easy Run'', Some ''5 km'', Some ''Aerobic''],
              [Some ''Week 1'', Some ''Saturday'', Some ''Easy Run'', Some ''5 km'', Some ''Aerobic''],
              [Some ''Week 1'', Some ''Saturday'', Some ''Strides'', Some ''6 x 20s'', Some ''Form''],
              [Some ''Week 1'', Some ''Sunday'', Some ''Long Run'', Some ''16 km'', Some ''Endurance'']]\<rparr>"

section \<open>Structured week records\<close>

text \<open>
  The value that \<open>JSON.parse\<close> returns. An object is the list of its properties, read with
  \<^const>\<open>map_of\<close>. Numbers are integers or the infinities that an over-large literal parses
  to; a fractional number is outside this model.
\<close>

datatype json =
    JNull
  | JBool bool
  | JNumber jsnumber
  | JString string
  | JArray "json list"
  | JObject "(string \<times> json) list"

record StructuredPlanDay =
  day :: string
  workoutType :: string
  details :: string
  rationale :: string

record StructuredPlanWeek =
  week :: int
  verdict :: string
  reasoning :: string
  days :: "StructuredPlanDay list"

text \<open>
  \<open>normalizeDayName\<close>; \<open>None\<close> is \<open>null\<close> or \<open>undefined\<close>, which the callers do not tell
  apart. An inherited value used as an index into \<open>WEEKDAY_NAMES\<close> finds nothing.
\<close>

definition normalizeDayName :: "string \<Rightarrow> string option" where
  "normalizeDayName v =
     (case DAY_INDEX (toLowerCase (trim v)) of
        None \<Rightarrow> None
      | Some (DayOffset i) \<Rightarrow> Some (WEEKDAY_NAMES ! i)
      | Some (InheritedObject name) \<Rightarrow> None)"

text \<open>\<open>value.key\<close> on a value that is not \<open>null\<close>; \<open>None\<close> is \<open>undefined\<close>.\<close>

fun getProp :: "json \<Rightarrow> string \<Rightarrow> json option" where
  "getProp (JObject props) k = map_of props k"
| "getProp v k = None"

text \<open>
  \<open>(v ?? d)\<close> used as a string: \<open>undefined\<close> and \<open>null\<close> give the default, a string gives
  itself, and any other value has no \<open>trim\<close> method, so calling it throws a \<open>TypeError\<close>
  (\<open>None\<close>).
\<close>

fun stringOr :: "json option \<Rightarrow> string \<Rightarrow> string option" where
  "stringOr None d = Some d"
| "stringOr (Some JNull) d = Some d"
| "stringOr (Some (JString s)) d = Some s"
| "stringOr (Some v) d = None"

text \<open>\<open>s.trim() || d\<close>\<close>

definition trimmedOr :: "string \<Rightarrow> string \<Rightarrow> string" where
  "trimmedOr s d = (if trim s = [] then d else trim s)"

definition dayFromEntry :: "string \<Rightarrow> json \<Rightarrow> StructuredPlanDay option" where
  "dayFromEntry normalizedDay entry =
     (case stringOr (getProp entry ''workoutType'') ''Rest Day'' of
        None \<Rightarrow> None
      | Some wt \<Rightarrow>
          (case stringOr (getProp entry ''details'') [] of
             None \<Rightarrow> None
           | Some dt \<Rightarrow>
               (case stringOr (getProp entry ''rationale'') [] of
                  None \<Rightarrow> None
                | Some ra \<Rightarrow>
                    Some \<lparr>day = normalizedDay,
                          workoutType = trimmedOr wt ''Rest Day'',
                          details = trimmedOr dt ''Recovery / mobility'',
                          rationale = trimmedOr ra ''Load management''\<rparr>)))"

text \<open>
  The loop over \<open>parsed.days\<close> that fills the map \<open>byDay\<close>; \<open>None\<close> when an exception is
  thrown (an entry that is \<open>null\<close>, or a field that is not a string).
\<close>

fun collectDays ::
  "(string \<rightharpoonup> StructuredPlanDay) \<Rightarrow> json list \<Rightarrow> (string \<rightharpoonup> StructuredPlanDay) option" where
  "collectDays byDay [] = Some byDay"
| "collectDays byDay (entry # rest) =
     (if entry = JNull then None
      else (case stringOr (getProp entry ''day'') [] of
              None \<Rightarrow> None
            | Some dv \<Rightarrow>
                (case normalizeDayName dv of
                   None \<Rightarrow> collectDays byDay rest
                 | Some nd \<Rightarrow>
                     if byDay nd \<noteq> None then collectDays byDay rest
                     else (case dayFromEntry nd entry of
                             None \<Rightarrow> None
                           | Some r \<Rightarrow> collectDays (byDay(nd \<mapsto> r)) rest))))"

definition defaultDay :: "string \<Rightarrow> StructuredPlanDay" where
  "defaultDay d =
     \<lparr>day = d, workoutType = ''Rest Day'', details = ''Recovery / mobility'',
      rationale = ''Load management''\<rparr>"

definition weekFromParsed :: "json \<Rightarrow> int \<Rightarrow> StructuredPlanWeek option" where
  "weekFromParsed parsed expectedWeek =
     (if parsed = JNull then None
      else (case getProp parsed ''days'' of
              Some (JArray entries) \<Rightarrow>
                (case collectDays Map.empty entries of
                   None \<Rightarrow> None
                 | Some byDay \<Rightarrow>
                     (case stringOr (getProp parsed ''verdict'') ''Maintenance'' of
                        None \<Rightarrow> None
                      | Some v \<Rightarrow>
                          (case stringOr (getProp parsed ''reasoning'')
                                  ''Balanced load and recovery.'' of
                             None \<Rightarrow> None
                           | Some r \<Rightarrow>
                               Some \<lparr>week = (case getProp parsed ''week'' of
                                               Some (JNumber (Finite n)) \<Rightarrow> n
                                             | _ \<Rightarrow> expectedWeek),
                                     verdict = trimmedOr v ''Maintenance'',
                                     reasoning = trimmedOr r ''Balanced load and recovery.'',
                                     days = map (\<lambda>d. case byDay d of
                                                        Some existing \<Rightarrow> existing
                                                      | None \<Rightarrow> defaultDay d)
                                                WEEKDAY_NAMES\<rparr>)))
            | _ \<Rightarrow> None))"

text \<open>The three \<open>replace\<close> calls that strip a code fence, and the final \<open>trim\<close>.\<close>

definition withoutFence :: "string \<Rightarrow> string" where
  "withoutFence trimmed =
     (let s1 = (if toLowerCase (take 7 trimmed) = ''```json'' then drop 7 trimmed else trimmed);
          s2 = (if startsWith s1 ''```'' then drop 3 s1 else s1);
          s3 = (if endsWith s2 ''```'' then take (length s2 - 3) s2 else s2)
      in trim s3)"

definition lastIndexOf :: "char \<Rightarrow> string \<Rightarrow> nat option" where
  "lastIndexOf c s =
     (case findIndex (\<lambda>x. x = c) (rev s) of
        None \<Rightarrow> None
      | Some i \<Rightarrow> Some (length s - 1 - i))"

text \<open>The text between the first \<open>{\<close> and the last \<open>}\<close> that is handed to \<open>JSON.parse\<close>.\<close>

definition jsonCandidate :: "string \<Rightarrow> string option" where
  "jsonCandidate text =
     (let trimmed = trim text
      in if trimmed = [] then None
         else
           (let body = withoutFence trimmed
            in case findIndex (\<lambda>x. x = CHR ''{'') body of
                 None \<Rightarrow> None
               | Some firstBrace \<Rightarrow>
                   (case lastIndexOf (CHR ''}'') body of
                      None \<Rightarrow> None
                    | Some lastBrace \<Rightarrow>
                        if lastBrace \<le> firstBrace then None
                        else Some (jsSlice body (int firstBrace) (int lastBrace + 1)))))"

text \<open>
  \<open>JSON.parse\<close> is a parameter: a function from the candidate text to the parsed value,
  \<open>None\<close> when it throws a \<open>SyntaxError\<close>.
\<close>

definition parseWeekJsonFromText ::
  "(string \<Rightarrow> json option) \<Rightarrow> string \<Rightarrow> int \<Rightarrow> StructuredPlanWeek option" where
  "parseWeekJsonFromText JSON_parse text expectedWeek =
     (case jsonCandidate text of
        None \<Rightarrow> None
      | Some candidate \<Rightarrow>
          (case JSON_parse candidate of
             None \<Rightarrow> None
           | Some parsed \<Rightarrow> weekFromParsed parsed expectedWeek))"

definition structuredWeekToTable :: "StructuredPlanWeek \<Rightarrow> PlanTable" where
  "structuredWeekToTable weekPlan =
     \<lparr>headers = [''Week'', ''Day'', ''Workout Type'', ''Details (Distance/Pace/Zone)'',
                 ''Rationale''],
      rows = map (\<lambda>d. [Some (''Week '' @ numberToString (week weekPlan)), Some (day d),
                        Some (workoutType d), Some (details d), Some (rationale d)])
                 (days weekPlan)\<rparr>"

text \<open>
  What the claim about the seven days speaks of: the weekday an entry names, whether the
  fields that are read are strings (or \<open>null\<close>, or absent), and the record expected for
  a weekday, taken from the first entry that names it.
\<close>

definition entryDay :: "json \<Rightarrow> string option" where
  "entryDay entry =
     (case stringOr (getProp entry ''day'') [] of
        None \<Rightarrow> None
      | Some dv \<Rightarrow> normalizeDayName dv)"

definition isText :: "json option \<Rightarrow> bool" where
  "isText v = (stringOr v [] \<noteq> None)"

definition wellTypedEntry :: "json \<Rightarrow> bool" where
  "wellTypedEntry entry =
     (entry \<noteq> JNull \<and> isText (getProp entry ''day'') \<and> isText (getProp entry ''workoutType'')
      \<and> isText (getProp entry ''details'') \<and> isText (getProp entry ''rationale''))"

definition expectedDay :: "json list \<Rightarrow> string \<Rightarrow> StructuredPlanDay" where
  "expectedDay entries d =
     (case find (\<lambda>entry. entryDay entry = Some d) entries of
        None \<Rightarrow> defaultDay d
      | Some entry \<Rightarrow>
          (case dayFromEntry d entry of
             None \<Rightarrow> defaultDay d
           | Some r \<Rightarrow> r))"

text \<open>
  Two model responses and the values \<open>JSON.parse\<close> gives for their candidate texts.
\<close>

definition scenarioJsonText :: string where
  \<open>scenarioJsonText =
     ''```json {"week":2,"verdict":"Push","reasoning":"ramp load","days":[{"day":"Mon","workoutType":"Easy Run","details":"5km","rationale":"aerobic base"}]} ```''\<close>

definition scenarioJson :: json where
  "scenarioJson =
     JObject [(''week'', JNumber (Finite 2)), (''verdict'', JString ''Push''),
              (''reasoning'', JString ''ramp load''),
              (''days'', JArray [JObject [(''day'', JString ''Mon''),
                                          (''workoutType'', JString ''Easy Run''),
                                          (''details'', JString ''5km''),
                                          (''rationale'', JString ''aerobic base'')]])]"

definition nullDayJsonText :: string where
  \<open>nullDayJsonText = ''{"days":[null]}''\<close>

definition scenarioCandidate :: string where
  \<open>scenarioCandidate =
     ''{"week":2,"verdict":"Push","reasoning":"ramp load","days":[{"day":"Mon","workoutType":"Easy Run","details":"5km","rationale":"aerobic base"}]}''\<close>

definition scenarioEntries :: "json list" where
  "scenarioEntries =
     [JObject [(''day'', JString ''Mon''), (''workoutType'', JString ''Easy Run''),
               (''details'', JString ''5km''), (''rationale'', JString ''aerobic base'')]]"

definition exampleParse :: "string \<Rightarrow> json option" where
  "exampleParse s =
     (if s = scenarioCandidate then Some scenarioJson
      else if s = nullDayJsonText then Some (JObject [(''days'', JArray [JNull])])
      else None)"

text \<open>The record of the first entry that names a weekday, if any (used in the proofs).\<close>

definition firstNamed :: "json list \<Rightarrow> string \<Rightarrow> StructuredPlanDay option" where
  "firstNamed entries d =
     (case find (\<lambda>entry. entryDay entry = Some d) entries of
        None \<Rightarrow> None
      | Some entry \<Rightarrow> dayFromEntry d entry)"

section \<open>Calendar events\<close>

text \<open>
  A \<open>Date\<close> is its time value, the milliseconds since the epoch in UTC, or \<open>None\<close> for an
  invalid date. Local time is UTC shifted by a fixed offset (a zone without a
  daylight-saving change in the weeks concerned). The environment holds what the runtime
  supplies: that offset, the parser behind \<open>new Date(string)\<close>, and the current time.
\<close>

record CalendarWorkoutEvent =
  title :: string
  startDate :: string
  endDate :: string
  "notes" :: string

record DisplayPlanTable = PlanTable +
  title :: string

record JsEnv =
  tzOffsetMinutes :: int
  dateParse :: "string \<Rightarrow> int option"
  now :: int

definition msPerDay :: int where
  "msPerDay = 86400000"

definition msPerMinute :: int where
  "msPerMinute = 60000"

definition timeClip :: "int \<Rightarrow> int option" where
  "timeClip t = (if \<bar>t\<bar> \<le> 8640000000000000 then Some t else None)"

definition localTime :: "JsEnv \<Rightarrow> int \<Rightarrow> int" where
  "localTime env t = t + tzOffsetMinutes env * msPerMinute"

definition utcOfLocal :: "JsEnv \<Rightarrow> int \<Rightarrow> int" where
  "utcOfLocal env l = l - tzOffsetMinutes env * msPerMinute"

definition localDay :: "JsEnv \<Rightarrow> int \<Rightarrow> int" where
  "localDay env t = localTime env t div msPerDay"

text \<open>Days since the epoch of a civil date, and back (proleptic Gregorian calendar).\<close>

definition daysFromCivil :: "int \<Rightarrow> int \<Rightarrow> int \<Rightarrow> int" where
  "daysFromCivil y m d =
     (let y1 = (if m \<le> 2 then y - 1 else y);
          era = y1 div 400;
          yoe = y1 - era * 400;
          doy = (153 * (if 2 < m then m - 3 else m + 9) + 2) div 5 + d - 1;
          doe = yoe * 365 + yoe div 4 - yoe div 100 + doy
      in era * 146097 + doe - 719468)"

definition civilFromDays :: "int \<Rightarrow> int \<times> int \<times> int" where
  "civilFromDays z0 =
     (let z = z0 + 719468;
          era = z div 146097;
          doe = z - era * 146097;
          yoe = (doe - doe div 1460 + doe div 36524 - doe div 146096) div 365;
          doy = doe - (365 * yoe + yoe div 4 - yoe div 100);
          mp = (5 * doy + 2) div 153;
          d = doy - (153 * mp + 2) div 5 + 1;
          m = (if mp < 10 then mp + 3 else mp - 9);
          y = yoe + era * 400 + (if m \<le> 2 then 1 else 0)
      in (y, m, d))"

definition padLeft :: "nat \<Rightarrow> string \<Rightarrow> string" where
  "padLeft n s = replicate (n - length s) (CHR ''0'') @ s"

definition yearText :: "int \<Rightarrow> string" where
  "yearText y =
     (if 0 \<le> y \<and> y \<le> 9999 then padLeft 4 (digitsOf (nat y))
      else (if y < 0 then ''-'' else ''+'') @ padLeft 6 (digitsOf (nat \<bar>y\<bar>)))"

definition toISOString :: "int \<Rightarrow> string" where
  "toISOString t =
     (let (y, m, d) = civilFromDays (t div msPerDay);
          ms = t mod msPerDay
      in yearText y @ ''-'' @ padLeft 2 (digitsOf (nat m)) @ ''-'' @ padLeft 2 (digitsOf (nat d))
         @ ''T'' @ padLeft 2 (digitsOf (nat (ms div 3600000)))
         @ '':'' @ padLeft 2 (digitsOf (nat (ms div 60000 mod 60)))
         @ '':'' @ padLeft 2 (digitsOf (nat (ms div 1000 mod 60)))
         @ ''.'' @ padLeft 3 (digitsOf (nat (ms mod 1000))) @ ''Z'')"

text \<open>
  \<open>nextMonday\<close>: local midnight of today, moved to the next Monday (a week ahead when
  today is a Monday). Day 0 of the epoch was a Thursday; weekday 0 is Sunday.
\<close>

definition nextMonday :: "JsEnv \<Rightarrow> int" where
  "nextMonday env =
     (let startDay = localDay env (now env);
          weekday = (startDay + 4) mod 7;
          daysUntilMonday = (if (8 - weekday) mod 7 = 0 then 7 else (8 - weekday) mod 7)
      in utcOfLocal env ((startDay + daysUntilMonday) * msPerDay))"

text \<open>The match of \<open>/week\s+(\d+)/i\<close> at the head of a string, and the leftmost match.\<close>

definition matchWeekAt :: "string \<Rightarrow> string option" where
  "matchWeekAt s =
     (if toLowerCase (take 4 s) = ''week''
      then (let r = drop 4 s;
                ds = takeWhile isDigit (dropWhile isWhiteSpace r)
            in if takeWhile isWhiteSpace r \<noteq> [] \<and> ds \<noteq> [] then Some ds else None)
      else None)"

fun firstWeekMatch :: "string \<Rightarrow> string option" where
  "firstWeekMatch [] = matchWeekAt []"
| "firstWeekMatch (c # cs) =
     (case matchWeekAt (c # cs) of
        Some ds \<Rightarrow> Some ds
      | None \<Rightarrow> firstWeekMatch cs)"

definition extractWeekNumber :: "string \<Rightarrow> int \<Rightarrow> int" where
  "extractWeekNumber ttl fallback =
     (case firstWeekMatch ttl of
        None \<Rightarrow> fallback
      | Some ds \<Rightarrow> (case parseInt10 ds of Finite parsed \<Rightarrow> parsed | _ \<Rightarrow> fallback))"

definition estimatedDurationMinutes :: "string \<Rightarrow> int" where
  "estimatedDurationMinutes workout =
     (let normalized = toLowerCase workout
      in if includesStr normalized ''long'' then 90
         else if includesStr normalized ''interval'' \<or> includesStr normalized ''tempo''
                 \<or> includesStr normalized ''speed'' then 70
         else if includesStr normalized ''recovery'' \<or> includesStr normalized ''easy'' then 50
         else if includesStr normalized ''strength'' then 45
         else 60)"

text \<open>
  \<open>startDate.setDate(startDate.getDate() + k); startDate.setHours(7, 0, 0, 0)\<close>: the local
  calendar day moves by \<open>k\<close> days with the local time of day kept, then the local time of
  day becomes 07:00. Each setter clips its result to the range of valid time values.
\<close>

definition setDatePlus :: "JsEnv \<Rightarrow> int \<Rightarrow> int option \<Rightarrow> int option" where
  "setDatePlus env k date =
     (case date of
        None \<Rightarrow> None
      | Some t \<Rightarrow>
          timeClip (utcOfLocal env ((localDay env t + k) * msPerDay + localTime env t mod msPerDay)))"

definition setHours7 :: "JsEnv \<Rightarrow> int option \<Rightarrow> int option" where
  "setHours7 env date =
     (case date of
        None \<Rightarrow> None
      | Some t \<Rightarrow> timeClip (utcOfLocal env (localDay env t * msPerDay + 7 * 3600000)))"

definition addMinutes :: "int \<Rightarrow> int option \<Rightarrow> int option" where
  "addMinutes n date = (case date of None \<Rightarrow> None | Some t \<Rightarrow> timeClip (t + n * msPerMinute))"

text \<open>
  The body of the row loop: \<open>Some []\<close> when the row is skipped, \<open>Some [event]\<close> when an
  event is pushed, \<open>None\<close> when \<open>toISOString\<close> throws a \<open>RangeError\<close> on an invalid date.
  When the day label names an inherited property, \<open>dayOffset\<close> is a function or an object,
  the sum handed to \<open>setDate\<close> is a string that is not a number, and the date is invalid.
\<close>

definition rowEvent ::
  "JsEnv \<Rightarrow> int option \<Rightarrow> int \<Rightarrow> nat \<Rightarrow> nat \<Rightarrow> nat option \<Rightarrow> nat option \<Rightarrow> cell list
   \<Rightarrow> CalendarWorkoutEvent list option" where
  "rowEvent env planStartMonday weekNumber dayIndex workoutTypeIndex detailsIndex rationaleIndex row =
     (let dayLabel = toLowerCase (trim (orElse (cellAt row dayIndex) []))
      in case DAY_INDEX dayLabel of
           None \<Rightarrow> Some []
         | Some dayOffset \<Rightarrow>
             (let workout = orElse (cellAt row workoutTypeIndex) ''Run''
              in if isRestLikeWorkout workout then Some []
                 else
                   (let detailText = (case detailsIndex of
                                        None \<Rightarrow> []
                                      | Some i \<Rightarrow> orElse (cellAt row i) []);
                        rationaleText = (case rationaleIndex of
                                           None \<Rightarrow> []
                                         | Some i \<Rightarrow> orElse (cellAt row i) []);
                        weekOffset = (weekNumber - 1) * 7;
                        start = (case dayOffset of
                                   DayOffset n \<Rightarrow>
                                     setHours7 env
                                       (setDatePlus env (weekOffset + int n) planStartMonday)
                                 | InheritedObject name \<Rightarrow> None);
                        finish = addMinutes (estimatedDurationMinutes workout) start;
                        notesParts = filter (\<lambda>s. s \<noteq> []) [detailText, rationaleText]
                    in case start of
                         None \<Rightarrow> None
                       | Some s \<Rightarrow>
                           (case finish of
                              None \<Rightarrow> None
                            | Some e \<Rightarrow>
                                Some [\<lparr>CalendarWorkoutEvent.title =
                                         ''Frunna W'' @ numberToString weekNumber @ '': ''
                                         @ workout,
                                       startDate = toISOString s,
                                       endDate = toISOString e,
                                       notes = joinWith [CHR 0x0A] notesParts\<rparr>]))))"

definition pushEvents ::
  "CalendarWorkoutEvent list option \<Rightarrow> CalendarWorkoutEvent list option
   \<Rightarrow> CalendarWorkoutEvent list option" where
  "pushEvents events new =
     (case events of
        None \<Rightarrow> None
      | Some evs \<Rightarrow> (case new of None \<Rightarrow> None | Some ns \<Rightarrow> Some (evs @ ns)))"

definition tableEvents ::
  "JsEnv \<Rightarrow> int option \<Rightarrow> CalendarWorkoutEvent list option \<Rightarrow> DisplayPlanTable \<times> nat
   \<Rightarrow> CalendarWorkoutEvent list option" where
  "tableEvents env planStartMonday events p =
     (let table = fst p;
          weekNumber = extractWeekNumber (DisplayPlanTable.title table) (int (snd p) + 1);
          dayIndex = findIndex isDayHeader (headers table);
          workoutTypeIndex = findIndex isWorkoutHeader (headers table);
          detailsIndex = findIndex isDetailsHeader (headers table);
          rationaleIndex = findIndex isRationaleHeader (headers table)
      in case dayIndex of
           None \<Rightarrow> events
         | Some di \<Rightarrow>
             (case workoutTypeIndex of
                None \<Rightarrow> events
              | Some wi \<Rightarrow>
                  foldl (\<lambda>acc row. pushEvents acc
                           (rowEvent env planStartMonday weekNumber di wi detailsIndex
                              rationaleIndex row))
                    events (rows table)))"

definition toCalendarEvents ::
  "JsEnv \<Rightarrow> DisplayPlanTable list \<Rightarrow> string option \<Rightarrow> CalendarWorkoutEvent list option" where
  "toCalendarEvents env tables planStartDateIso =
     (let planStartMonday =
            (case planStartDateIso of
               None \<Rightarrow> Some (nextMonday env)
             | Some isoText \<Rightarrow>
                 if isoText \<noteq> [] then dateParse env isoText else Some (nextMonday env))
      in foldl (tableEvents env planStartMonday) (Some []) (indexed tables))"

text \<open>
  The rows of a table for which no valid date can be computed: the day label names an
  inherited property and the workout is not rest-like.
\<close>

definition inheritedDayRows :: "DisplayPlanTable \<Rightarrow> cell list list" where
  "inheritedDayRows table =
     (case findIndex isDayHeader (headers table) of
        None \<Rightarrow> []
      | Some di \<Rightarrow>
          (case findIndex isWorkoutHeader (headers table) of
             None \<Rightarrow> []
           | Some wi \<Rightarrow>
               filter (\<lambda>row. toLowerCase (trim (orElse (cellAt row di) [])) \<in> set objectPrototypeKeys
                              \<and> \<not> isRestLikeWorkout (orElse (cellAt row wi) ''Run''))
                 (rows table)))"

text \<open>The instant at which a local wall-clock time is reached.\<close>

definition localInstant :: "JsEnv \<Rightarrow> int \<Rightarrow> int \<Rightarrow> int \<Rightarrow> int \<Rightarrow> int \<Rightarrow> int" where
  "localInstant env y m d hh mm =
     utcOfLocal env (daysFromCivil y m d * msPerDay + hh * 3600000 + mm * msPerMinute)"

text \<open>
  A runtime in UTC, in which the date-only text \<open>2024-06-03\<close> parses to midnight of that
  day, a week-1 table, two week-2 tables with one Wednesday row each, a week-2 table with a
  further row whose day label names an inherited property, and a table of a week far in
  the future.
\<close>

definition baseWeekTable :: DisplayPlanTable where
  "baseWeekTable =
     \<lparr>headers = [''Day'', ''Workout Type'', ''Details (Distance/Pace/Zone)'', ''Rationale''],
      rows = [[Some ''Monday'', Some ''Easy Run'', Some ''5 km'', Some ''Aerobic''],
              [Some ''Tuesday'', Some ''Rest Day'', Some ''Recovery'', Some ''Load management'']],
      title = ''Week 1''\<rparr>"

definition utcEnv :: JsEnv where
  "utcEnv =
     \<lparr>tzOffsetMinutes = 0,
      dateParse = (\<lambda>s. if s = ''2024-06-03'' then Some (19877 * 86400000) else None),
      now = 19870 * 86400000\<rparr>"

definition intervalWeekTable :: DisplayPlanTable where
  "intervalWeekTable =
     \<lparr>headers = [''Day'', ''Workout Type'', ''Details (Distance/Pace/Zone)'', ''Rationale''],
      rows = [[Some ''Wednesday'', Some ''Intervals'', Some ''6 x 800m'', Some ''Speed'']],
      title = ''Week 2''\<rparr>"

definition inheritedDayWeekTable :: DisplayPlanTable where
  "inheritedDayWeekTable =
     \<lparr>headers = [''Day'', ''Workout Type'', ''Details (Distance/Pace/Zone)'', ''Rationale''],
      rows = [[Some ''constructor'', Some ''Easy Run'', Some ''5 km'', Some ''Aerobic''],
              [Some ''Wednesday'', Some ''Intervals'', Some ''6 x 800m'', Some ''Speed'']],
      title = ''Week 2''\<rparr>"

definition farWeekTable :: DisplayPlanTable where
  "farWeekTable =
     \<lparr>headers = [''Day'', ''Workout Type'', ''Details (Distance/Pace/Zone)'', ''Rationale''],
      rows = [[Some ''Monday'', Some ''Easy Run'', Some ''5 km'', Some ''Aerobic'']],
      title = ''Week 99999999999''\<rparr>"

definition longIntervalWeekTable :: DisplayPlanTable where
  "longIntervalWeekTable =
     \<lparr>headers = [''Day'', ''Workout Type'', ''Details (Distance/Pace/Zone)'', ''Rationale''],
      rows = [[Some ''Wednesday'', Some ''Long Intervals'', Some ''5 x 2 km'', Some ''Endurance'']],
      title = ''Week 2''\<rparr>"

section \<open>Weekly orchestration\<close>

text \<open>
  What \<open>buildWeeklyPlan\<close> gets from outside: \<open>JSON.parse\<close>, the prompt builder (a pure
  function of the input and the week) and the text generator. The generator may answer the
  same prompt differently each time, so it is a function of the number of requests made
  before and of the prompt; it returns the text, or the value it throws.
\<close>

datatype thrown = ErrorObject string | NotAnError

definition caughtMessage :: "thrown \<Rightarrow> string" where
  "caughtMessage caught =
     (case caught of ErrorObject message \<Rightarrow> message | NotAnError \<Rightarrow> ''Unknown planning error.'')"

definition looksLikeContextWindowError :: "string \<Rightarrow> bool" where
  "looksLikeContextWindowError message =
     (let normalized = toLowerCase message
      in includesStr normalized ''context window'' \<or> includesStr normalized ''model size''
         \<or> includesStr normalized ''token'')"

record PlanInput =
  lookbackDays :: int
  planLengthWeeks :: nat
  selectedGoal :: string
  runningLevel :: string
  targetTime :: "string option"
  targetTimeSeconds :: "int option"
  historyContext :: "string option"
  runDaysPerWeek :: string
  longRunDay :: string
  distanceUnit :: string
  restingHrTrend :: string
  sleepTrend :: string
  hrvTrend :: string
  vo2Trend :: string
  distanceTrend :: string
  stepTrend :: string
  workoutNarrative :: "string list"
  adaptationContext :: "string option"

record Collaborators =
  JSON_parse :: "string \<Rightarrow> json option"
  buildAdaptiveRunningCoachPrompt :: "PlanInput \<Rightarrow> nat \<Rightarrow> string"
  generate :: "nat \<Rightarrow> string \<Rightarrow> thrown + string"

datatype WeeklyDebugPrompt = WeeklyDebugPrompt (promptWeek: nat) (mode: string) (prompt: string)

text \<open>
  The variables of one run: the four accumulators of \<open>buildWeeklyPlan\<close>, what it has
  published to the screen (\<open>setResponse\<close>, \<open>setPlanTables\<close>, \<open>setDebugPrompts\<close>), and the
  trace of the generation requests made so far, each with its prompt and its outcome.
\<close>

record RunState =
  partResponses :: "string list"
  accumulatedTables :: "PlanTable list"
  historySummaries :: "string list"
  nextDebugPrompts :: "WeeklyDebugPrompt list"
  response :: string
  planTables :: "PlanTable list"
  debugPrompts :: "WeeklyDebugPrompt list"
  requests :: "(string \<times> (thrown + string)) list"

definition toCompactInput :: "PlanInput \<Rightarrow> PlanInput" where
  "toCompactInput inp =
     inp\<lparr>workoutNarrative := jsSlice (workoutNarrative inp) 0 3,
         vo2Trend := ''VO2: '' @ vo2Trend inp,
         distanceTrend := ''Distance: '' @ distanceTrend inp,
         stepTrend := ''Steps: '' @ stepTrend inp\<rparr>"

definition plannedRunDays :: "PlanTable \<Rightarrow> string list" where
  "plannedRunDays table =
     (case findIndex isDayHeader (headers table) of
        None \<Rightarrow> []
      | Some di \<Rightarrow>
          (case findIndex isWorkoutHeader (headers table) of
             None \<Rightarrow> []
           | Some wi \<Rightarrow>
               map (\<lambda>row. toLowerCase (trim (orElse (cellAt row di) [])))
                 (filter (\<lambda>row. toLowerCase (trim (orElse (cellAt row di) [])) \<noteq> []
                                \<and> \<not> isRestLikeWorkout (orElse (cellAt row wi) []))
                    (rows table))))"

definition countPlannedRunDays :: "PlanTable list \<Rightarrow> nat" where
  "countPlannedRunDays tables = length (remdups (concat (map plannedRunDays tables)))"

definition withRunDayCorrection :: "string \<Rightarrow> nat \<Rightarrow> int \<Rightarrow> string" where
  "withRunDayCorrection promptText weekNumber runDayCap =
     joinWith [CHR 0x0A]
       [promptText, [],
        ''Critical Fix: Rewrite Week '' @ numberToString (int weekNumber) @ '' so it has EXACTLY ''
          @ numberToString runDayCap @ '' run days.'',
        ''Critical Fix: The other '' @ numberToString (7 - runDayCap)
          @ '' days must be Rest or non-running cross-training.'',
        ''Critical Fix: Return ONLY corrected JSON for that week using the same schema.'']"

text \<open>The response of the model turned into tables: structured first, else markdown.\<close>

definition normalizedTablesOf :: "Collaborators \<Rightarrow> string \<Rightarrow> nat \<Rightarrow> PlanTable list" where
  "normalizedTablesOf env answer weekNumber =
     (case parseWeekJsonFromText (JSON_parse env) answer (int weekNumber) of
        Some structuredWeek \<Rightarrow> [structuredWeekToTable structuredWeek]
      | None \<Rightarrow> enforceExpectedWeek (parseMarkdownTables answer) (int weekNumber))"

text \<open>\<open>await queryModel(prompt)\<close>, recorded in the trace.\<close>

definition queryModel :: "Collaborators \<Rightarrow> RunState \<Rightarrow> string \<Rightarrow> (thrown + string) \<times> RunState" where
  "queryModel env st promptText =
     (let outcome = generate env (length (requests st)) promptText
      in (outcome, st\<lparr>requests := requests st @ [(promptText, outcome)]\<rparr>))"

definition pushDebugPrompt :: "RunState \<Rightarrow> nat \<Rightarrow> string \<Rightarrow> string \<Rightarrow> RunState" where
  "pushDebugPrompt st weekNumber md promptText =
     st\<lparr>nextDebugPrompts := nextDebugPrompts st @ [WeeklyDebugPrompt weekNumber md promptText]\<rparr>"

text \<open>The end of an attempt: clamp, then the three pushes.\<close>

definition finishWeek :: "PlanInput \<Rightarrow> int \<Rightarrow> nat \<Rightarrow> RunState \<Rightarrow> string \<Rightarrow> PlanTable list \<Rightarrow> RunState" where
  "finishWeek inp runDayCap weekNumber st answer tables =
     (let clamped = clampWeekToRunDayCap tables runDayCap (longRunDay inp)
      in st\<lparr>partResponses := partResponses st @ [answer],
            accumulatedTables := accumulatedTables st @ clamped,
            historySummaries := historySummaries st
                                @ [summarizeWeekForHistory clamped (int weekNumber)]\<rparr>)"

text \<open>
  One attempt at a week with a given prompt: the request, the single corrective request
  when too many run days are planned, and the pushes. The source writes this sequence
  twice, in the \<open>try\<close> block (modes \<open>full\<close>, \<open>full-corrective\<close>) and in the \<open>catch\<close> block
  (modes \<open>compact\<close>, \<open>compact-corrective\<close>). The second component is the value thrown, if
  any.
\<close>

definition attemptWeek ::
  "Collaborators \<Rightarrow> PlanInput \<Rightarrow> int \<Rightarrow> nat \<Rightarrow> string \<Rightarrow> string \<Rightarrow> string \<Rightarrow> RunState
   \<Rightarrow> RunState \<times> thrown option" where
  "attemptWeek env inp runDayCap weekNumber md correctiveMode promptText st =
     (let st1 = pushDebugPrompt st weekNumber md promptText;
          (outcome, st2) = queryModel env st1 promptText
      in case outcome of
           Inl caught \<Rightarrow> (st2, Some caught)
         | Inr answer \<Rightarrow>
             (let tables = normalizedTablesOf env answer weekNumber
              in if runDayCap < int (countPlannedRunDays tables)
                 then
                   (let correctionPrompt = withRunDayCorrection promptText weekNumber runDayCap;
                        st3 = pushDebugPrompt st2 weekNumber correctiveMode correctionPrompt;
                        (outcome2, st4) = queryModel env st3 correctionPrompt
                    in case outcome2 of
                         Inl caught \<Rightarrow> (st4, Some caught)
                       | Inr answer2 \<Rightarrow>
                           (finishWeek inp runDayCap weekNumber st4 answer2
                              (normalizedTablesOf env answer2 weekNumber), None))
                 else (finishWeek inp runDayCap weekNumber st2 answer tables, None)))"

text \<open>The body of the loop over the weeks, up to the end of the \<open>try\<close>/\<open>catch\<close>.\<close>

definition weekIteration ::
  "Collaborators \<Rightarrow> PlanInput \<Rightarrow> int \<Rightarrow> RunState \<Rightarrow> nat \<Rightarrow> RunState \<times> thrown option" where
  "weekIteration env inp runDayCap st weekNumber =
     (let history = Some (joinWith [CHR 0x0A, CHR 0x0A] (historySummaries st));
          fullPromptInput = inp\<lparr>historyContext := history\<rparr>;
          compactPromptInput = (toCompactInput inp)\<lparr>historyContext := history\<rparr>;
          fullPrompt = buildAdaptiveRunningCoachPrompt env fullPromptInput weekNumber
      in case attemptWeek env inp runDayCap weekNumber ''full'' ''full-corrective'' fullPrompt st of
           (st1, None) \<Rightarrow> (st1, None)
         | (st1, Some caught) \<Rightarrow>
             if \<not> looksLikeContextWindowError (caughtMessage caught) then (st1, Some caught)
             else attemptWeek env inp runDayCap weekNumber ''compact'' ''compact-corrective''
                    (buildAdaptiveRunningCoachPrompt env compactPromptInput weekNumber) st1)"

definition combinedText :: "nat list \<Rightarrow> string list \<Rightarrow> string" where
  "combinedText parts answers =
     joinWith [CHR 0x0A, CHR 0x0A]
       (map (\<lambda>(weekNumber, idx).
               joinWith [CHR 0x0A]
                 [''## Week '' @ numberToString (int weekNumber),
                  (if idx < length answers then answers ! idx else [])])
            (indexed parts))"

text \<open>The end of a loop pass that did not throw: the partial result is published.\<close>

definition publishPartial :: "nat list \<Rightarrow> RunState \<Rightarrow> RunState" where
  "publishPartial parts st =
     st\<lparr>response := combinedText (jsSlice parts 0 (int (length (partResponses st))))
                       (partResponses st),
        planTables := accumulatedTables st,
        debugPrompts := nextDebugPrompts st\<rparr>"

text \<open>The loop over the weeks that are left; it stops at the first value thrown.\<close>

fun runWeeks ::
  "Collaborators \<Rightarrow> PlanInput \<Rightarrow> int \<Rightarrow> nat list \<Rightarrow> RunState \<Rightarrow> nat list
   \<Rightarrow> RunState \<times> thrown option" where
  "runWeeks env inp runDayCap parts st [] = (st, None)"
| "runWeeks env inp runDayCap parts st (weekNumber # rest) =
     (case weekIteration env inp runDayCap st weekNumber of
        (st1, Some caught) \<Rightarrow> (st1, Some caught)
      | (st1, None) \<Rightarrow> runWeeks env inp runDayCap parts (publishPartial parts st1) rest)"

text \<open>
  \<open>buildWeeklyPlan\<close>, started in the state \<open>st0\<close> of the screen; the accumulators start
  empty. The parts are the weeks \<open>1..planLengthWeeks\<close>; a plan of more than 12 weeks has no
  prompt key for week 13, and building the parts throws.
\<close>

definition weekParts :: "PlanInput \<Rightarrow> nat list" where
  "weekParts inp = map Suc [0..<planLengthWeeks inp]"

definition startState :: "RunState \<Rightarrow> RunState" where
  "startState st0 =
     st0\<lparr>partResponses := [], accumulatedTables := [], historySummaries := [],
         nextDebugPrompts := []\<rparr>"

definition buildWeeklyPlan ::
  "Collaborators \<Rightarrow> RunState \<Rightarrow> PlanInput \<Rightarrow> RunState \<times> (thrown + string \<times> PlanTable list)" where
  "buildWeeklyPlan env st0 inp =
     (if 12 < planLengthWeeks inp
      then (st0, Inl (ErrorObject ''Unsupported week prompt key: week13''))
      else
        (let parts = weekParts inp;
             runDayCap = parseRunDayCap (runDaysPerWeek inp)
         in case runWeeks env inp runDayCap parts (startState st0) parts of
              (st2, Some caught) \<Rightarrow> (st2, Inl caught)
            | (st2, None) \<Rightarrow>
                (st2\<lparr>debugPrompts := nextDebugPrompts st2\<rparr>,
                 Inr (combinedText parts (partResponses st2), accumulatedTables st2))))"

text \<open>
  A request that failed, and the results of a run that a failed week must leave as they
  were (used to state the behaviour on failure).
\<close>

definition isFailure :: "string \<times> (thrown + string) \<Rightarrow> bool" where
  "isFailure q = (case snd q of Inl caught \<Rightarrow> True | Inr answer \<Rightarrow> False)"

definition sameResults :: "RunState \<Rightarrow> RunState \<Rightarrow> bool" where
  "sameResults st st' =
     (partResponses st' = partResponses st \<and> accumulatedTables st' = accumulatedTables st
      \<and> historySummaries st' = historySummaries st \<and> response st' = response st
      \<and> planTables st' = planTables st \<and> debugPrompts st' = debugPrompts st)"

text \<open>
  A run in which the first request is answered with the structured week of the scenario
  and every later request fails with an error that is not about the context window.
\<close>

definition demoEnv :: Collaborators where
  "demoEnv =
     \<lparr>JSON_parse = exampleParse,
      buildAdaptiveRunningCoachPrompt = (\<lambda>inp w. ''Plan week '' @ numberToString (int w)),
      generate = (\<lambda>n p. if n = 0 then Inr scenarioJsonText
                         else Inl (ErrorObject ''Model unavailable''))\<rparr>"

definition demoInput :: PlanInput where
  "demoInput =
     \<lparr>lookbackDays = 30, planLengthWeeks = 8, selectedGoal = ''10K'',
      runningLevel = ''Intermediate'', targetTime = None, targetTimeSeconds = None,
      historyContext = None, runDaysPerWeek = ''4'', longRunDay = ''Sunday'',
      distanceUnit = ''km'', restingHrTrend = ''Resting HR: no data'',
      sleepTrend = ''Sleep duration: no data'', hrvTrend = ''HRV: no data'',
      vo2Trend = ''VO2 max: no data'', distanceTrend = ''Walking/running distance: no data'',
      stepTrend = ''Daily steps: no data'',
      workoutNarrative = [''No workouts logged in this period.''], adaptationContext = None\<rparr>"

definition demoStart :: RunState where
  "demoStart =
     \<lparr>partResponses = [], accumulatedTables = [], historySummaries = [], nextDebugPrompts = [],
      response = [], planTables = [], debugPrompts = [], requests = []\<rparr>"

section \<open>Basic facts about the array operations\<close>

lemma cellAt_setCell: "cellAt (setCell row i v) j = (if j = i then Some v else cellAt row j)"
  by (auto simp: cellAt_def setCell_def nth_append)

lemma length_setCell: "i < length row \<Longrightarrow> length (setCell row i v) = length row"
  by (simp add: setCell_def)

lemma setCell_idem: "setCell (setCell row k v) k v = setCell row k v"
  by (auto simp: setCell_def nth_append list_update_append)

lemma jsSlice_take: "0 \<le> k \<Longrightarrow> jsSlice xs 0 k = take (nat k) xs"
  by (simp add: jsSlice_def sliceBound_def min_def)

lemma jsSliceFrom_drop: "jsSliceFrom xs (int k) = drop k xs"
  by (simp add: jsSliceFrom_def sliceBound_def min_def)

lemma findIndexFrom_None: "findIndexFrom i p xs = None \<longleftrightarrow> (\<forall>x\<in>set xs. \<not> p x)"
  by (induction xs arbitrary: i) simp_all

lemma findIndex_None: "findIndex p xs = None \<longleftrightarrow> (\<forall>x\<in>set xs. \<not> p x)"
  by (simp add: findIndex_def findIndexFrom_None)

lemma findIndexFrom_Some:
  "findIndexFrom i p xs = Some k \<Longrightarrow> i \<le> k \<and> k - i < length xs \<and> p (xs ! (k - i))"
proof (induction xs arbitrary: i)
  case Nil
  then show ?case by simp
next
  case (Cons x xs)
  show ?case
  proof (cases "p x")
    case True
    with Cons.prems show ?thesis by simp
  next
    case False
    with Cons.prems have "findIndexFrom (Suc i) p xs = Some k" by simp
    from Cons.IH [OF this] show ?thesis
      by (auto simp: Suc_diff_Suc)
  qed
qed

lemma findIndex_Some: "findIndex p xs = Some k \<Longrightarrow> k < length xs \<and> p (xs ! k)"
  using findIndexFrom_Some [of 0 p xs k] by (simp add: findIndex_def)

lemma map_snd_indexed: "map snd (indexed xs) = [0..<length xs]"
  by (simp add: indexed_def)

lemma length_indexed: "length (indexed xs) = length xs"
  by (simp add: indexed_def)

lemma nth_indexed: "i < length xs \<Longrightarrow> indexed xs ! i = (xs ! i, i)"
  by (simp add: indexed_def)

lemma in_set_indexed: "(x, i) \<in> set (indexed xs) \<longleftrightarrow> i < length xs \<and> x = xs ! i"
  unfolding indexed_def
  by (simp add: in_set_zip) (metis add.left_neutral nth_upt length_upt diff_zero)

lemma filter_zip_fst:
  "length xs = length ys \<Longrightarrow> map fst (filter (\<lambda>p. P (fst p)) (zip xs ys)) = filter P xs"
  by (induction xs ys rule: list_induct2) simp_all

section \<open>The run-day cap\<close>

lemma isRestLike_RestDay: "isRestLikeWorkout ''Rest Day''"
  by (simp add: isRestLikeWorkout_def toLowerCase_def toLowerChar_def)

lemma demoteRow_workout_cell:
  assumes "d \<noteq> Some wi" and "r \<noteq> Some wi"
  shows "cellAt (demoteRow wi d r cap row) wi = Some ''Rest Day''"
  using assms by (cases d; cases r) (simp_all add: demoteRow_def cellAt_setCell)

lemma demoteRow_not_active:
  assumes "d \<noteq> Some wi" and "r \<noteq> Some wi"
  shows "\<not> isActiveRow wi (demoteRow wi d r cap row)"
  using demoteRow_workout_cell [OF assms] isRestLike_RestDay
  by (simp add: isActiveRow_def orElse_def)

lemma distinct_activeIndexes: "distinct (activeIndexes wi rws)"
  unfolding activeIndexes_def
  by (rule distinct_map_filter) (simp add: map_snd_indexed)

lemma set_activeIndexes:
  "set (activeIndexes wi rws) = {i. i < length rws \<and> isActiveRow wi (rws ! i)}"
proof -
  have "set (activeIndexes wi rws) = snd ` {p \<in> set (indexed rws). isActiveRow wi (fst p)}"
    by (simp add: activeIndexes_def case_prod_unfold)
  also have "\<dots> = {i. i < length rws \<and> isActiveRow wi (rws ! i)}"
  proof (rule set_eqI)
    fix i
    show "i \<in> snd ` {p \<in> set (indexed rws). isActiveRow wi (fst p)}
          \<longleftrightarrow> i \<in> {i. i < length rws \<and> isActiveRow wi (rws ! i)}"
    proof
      assume "i \<in> snd ` {p \<in> set (indexed rws). isActiveRow wi (fst p)}"
      then obtain x where "(x, i) \<in> set (indexed rws)" and "isActiveRow wi x"
        by auto
      then show "i \<in> {i. i < length rws \<and> isActiveRow wi (rws ! i)}"
        by (simp add: in_set_indexed)
    next
      assume "i \<in> {i. i < length rws \<and> isActiveRow wi (rws ! i)}"
      then have "(rws ! i, i) \<in> set (indexed rws)" and "isActiveRow wi (rws ! i)"
        by (simp_all add: in_set_indexed)
      then show "i \<in> snd ` {p \<in> set (indexed rws). isActiveRow wi (fst p)}"
        by force
    qed
  qed
  finally show ?thesis .
qed

lemma length_activeIndexes:
  "length (activeIndexes wi rws) = length (filter (isActiveRow wi) rws)"
proof -
  have "map fst (filter (\<lambda>p. isActiveRow wi (fst p)) (indexed rws)) = filter (isActiveRow wi) rws"
    unfolding indexed_def by (rule filter_zip_fst) simp
  then have "length (map fst (filter (\<lambda>p. isActiveRow wi (fst p)) (indexed rws)))
             = length (filter (isActiveRow wi) rws)"
    by (rule arg_cong)
  then show ?thesis
    by (simp add: activeIndexes_def case_prod_unfold)
qed

lemma map_fst_scored:
  "map fst (map (\<lambda>(row, idx). (idx, rowScore di wi lr row idx))
           (filter (\<lambda>(row, idx). isActiveRow wi row) (indexed rws))) = activeIndexes wi rws"
  by (simp add: activeIndexes_def comp_def case_prod_unfold)

lemma mset_insertSorted: "mset (insertSorted compare x ys) = add_mset x (mset ys)"
  by (induction ys) simp_all

lemma mset_sortWith: "mset (sortWith compare xs) = mset xs"
  unfolding sortWith_def by (induction xs) (simp_all add: mset_insertSorted)

lemma mset_map_fst_sort: "mset (map fst (sortWith compare xs)) = mset (map fst xs)"
  by (simp add: mset_sortWith)

lemma keepIndexes_take:
  assumes "0 \<le> cap"
  shows "keepIndexes di wi lr cap rws =
     take (nat cap) (map fst (sortWith compareScores
        (map (\<lambda>(row, idx). (idx, rowScore di wi lr row idx))
           (filter (\<lambda>(row, idx). isActiveRow wi row) (indexed rws)))))"
  using assms by (simp add: keepIndexes_def jsSlice_take take_map)

text \<open>
  Whatever the scores are, \<open>NaN\<close> included, the kept indices are \<open>cap\<close> distinct indices
  of active rows: only the fact that sorting permutes its input is used.
\<close>

lemma keepIndexes_props:
  assumes "0 \<le> cap" and "cap < int (length (filter (isActiveRow wi) rws))"
  shows "distinct (keepIndexes di wi lr cap rws)"
    and "length (keepIndexes di wi lr cap rws) = nat cap"
    and "set (keepIndexes di wi lr cap rws) \<subseteq> {i. i < length rws \<and> isActiveRow wi (rws ! i)}"
proof -
  define sorted where "sorted = map fst (sortWith compareScores
        (map (\<lambda>(row, idx). (idx, rowScore di wi lr row idx))
           (filter (\<lambda>(row, idx). isActiveRow wi row) (indexed rws))))"
  have keep: "keepIndexes di wi lr cap rws = take (nat cap) sorted"
    unfolding sorted_def using assms(1) by (rule keepIndexes_take)
  have ms: "mset sorted = mset (activeIndexes wi rws)"
    unfolding sorted_def mset_map_fst_sort map_fst_scored ..
  have d: "distinct sorted"
    using ms distinct_activeIndexes mset_eq_imp_distinct_iff by blast
  have s: "set sorted = set (activeIndexes wi rws)"
    using ms by (rule mset_eq_setD)
  have l: "length sorted = length (activeIndexes wi rws)"
    using ms by (rule mset_eq_length)
  show "distinct (keepIndexes di wi lr cap rws)"
    unfolding keep using d by (rule distinct_take)
  show "length (keepIndexes di wi lr cap rws) = nat cap"
    unfolding keep using assms l by (simp add: length_activeIndexes)
  have "set (take (nat cap) sorted) \<subseteq> set sorted"
    by (rule set_take_subset)
  then show "set (keepIndexes di wi lr cap rws) \<subseteq> {i. i < length rws \<and> isActiveRow wi (rws ! i)}"
    unfolding keep s set_activeIndexes .
qed

lemma clampTable_unfold:
  assumes "findIndex isDayHeader (headers t) = Some di"
    and "findIndex isWorkoutHeader (headers t) = Some wi"
    and "cap < int (length (filter (isActiveRow wi) (rows t)))"
  shows "clampTable cap lrd t =
     \<lparr>headers = headers t,
      rows = map (clampRow wi (findIndex isDetailsHeader (headers t))
                    (findIndex isRationaleHeader (headers t)) cap
                    (keepIndexes di wi (orElse (DAY_INDEX (toLowerCase lrd)) (DayOffset 6)) cap
                       (rows t)))
                 (indexed (rows t))\<rparr>"
  using assms by (simp add: clampTable_def)

lemma length_filter_index_set:
  assumes "distinct ks" and "set ks \<subseteq> {i. i < n}"
  shows "length (filter (\<lambda>i. i \<in> set ks) [0..<n]) = length ks"
proof -
  have "distinct (filter (\<lambda>i. i \<in> set ks) [0..<n])"
    by simp
  then have "length (filter (\<lambda>i. i \<in> set ks) [0..<n])
             = card (set (filter (\<lambda>i. i \<in> set ks) [0..<n]))"
    by (rule distinct_card [symmetric])
  also have "set (filter (\<lambda>i. i \<in> set ks) [0..<n]) = set ks"
    using assms(2) by auto
  also have "card (set ks) = length ks"
    using assms(1) by (rule distinct_card)
  finally show ?thesis .
qed

lemma clampRow_active_iff:
  assumes "d \<noteq> Some wi" and "r \<noteq> Some wi"
    and "set keep \<subseteq> {i. i < length rws \<and> isActiveRow wi (rws ! i)}"
    and "p \<in> set (indexed rws)"
  shows "isActiveRow wi (clampRow wi d r cap keep p) \<longleftrightarrow> snd p \<in> set keep"
proof (cases "snd p \<in> set keep")
  case True
  obtain row i where p: "p = (row, i)" by (cases p)
  with assms(4) have "row = rws ! i" by (simp add: in_set_indexed)
  with True p assms(3) have "isActiveRow wi row" by auto
  with True p show ?thesis by (simp add: clampRow_def)
next
  case False
  then show ?thesis
    using demoteRow_not_active [OF assms(1,2)] by (simp add: clampRow_def)
qed

lemma clamp_count:
  assumes "d \<noteq> Some wi" and "r \<noteq> Some wi"
    and "distinct keep"
    and "set keep \<subseteq> {i. i < length rws \<and> isActiveRow wi (rws ! i)}"
  shows "length (filter (isActiveRow wi) (map (clampRow wi d r cap keep) (indexed rws)))
         = length keep"
proof -
  have "length (filter (isActiveRow wi) (map (clampRow wi d r cap keep) (indexed rws)))
        = length (filter (\<lambda>p. isActiveRow wi (clampRow wi d r cap keep p)) (indexed rws))"
    by (simp add: filter_map comp_def)
  also have "filter (\<lambda>p. isActiveRow wi (clampRow wi d r cap keep p)) (indexed rws)
        = filter (\<lambda>p. snd p \<in> set keep) (indexed rws)"
    by (rule filter_cong [OF refl]) (rule clampRow_active_iff [OF assms(1,2,4)])
  also have "length (filter (\<lambda>p. snd p \<in> set keep) (indexed rws))
        = length (filter (\<lambda>i. i \<in> set keep) (map snd (indexed rws)))"
    by (simp add: filter_map comp_def)
  also have "\<dots> = length keep"
    unfolding map_snd_indexed using assms(3,4) by (intro length_filter_index_set) auto
  finally show ?thesis .
qed

lemma clampTable_enforces:
  assumes di: "findIndex isDayHeader (headers t) = Some di"
    and wi: "findIndex isWorkoutHeader (headers t) = Some wi"
    and nd: "findIndex isDetailsHeader (headers t) \<noteq> Some wi"
    and nr: "findIndex isRationaleHeader (headers t) \<noteq> Some wi"
    and c0: "0 \<le> cap"
    and c1: "cap < int (length (filter (isActiveRow wi) (rows t)))"
  shows "headers (clampTable cap lrd t) = headers t"
    and "length (rows (clampTable cap lrd t)) = length (rows t)"
    and "length (filter (isActiveRow wi) (rows (clampTable cap lrd t))) = nat cap"
    and "\<forall>i<length (rows t). isActiveRow wi (rows (clampTable cap lrd t) ! i)
            \<longrightarrow> rows (clampTable cap lrd t) ! i = rows t ! i"
    and "\<forall>i<length (rows t). \<not> isActiveRow wi (rows t ! i)
            \<longrightarrow> rows (clampTable cap lrd t) ! i = rows t ! i"
proof -
  define keep where
    "keep = keepIndexes di wi (orElse (DAY_INDEX (toLowerCase lrd)) (DayOffset 6)) cap (rows t)"
  define d where "d = findIndex isDetailsHeader (headers t)"
  define r where "r = findIndex isRationaleHeader (headers t)"
  have unf: "clampTable cap lrd t =
      \<lparr>headers = headers t, rows = map (clampRow wi d r cap keep) (indexed (rows t))\<rparr>"
    unfolding keep_def d_def r_def by (rule clampTable_unfold [OF di wi c1])
  have kd: "distinct keep" and kl: "length keep = nat cap"
    and ks: "set keep \<subseteq> {i. i < length (rows t) \<and> isActiveRow wi (rows t ! i)}"
    unfolding keep_def by (rule keepIndexes_props [OF c0 c1])+
  have nd': "d \<noteq> Some wi" and nr': "r \<noteq> Some wi"
    using nd nr by (simp_all add: d_def r_def)
  show "headers (clampTable cap lrd t) = headers t"
    by (simp add: unf)
  show "length (rows (clampTable cap lrd t)) = length (rows t)"
    by (simp add: unf length_indexed)
  show "length (filter (isActiveRow wi) (rows (clampTable cap lrd t))) = nat cap"
    using clamp_count [OF nd' nr' kd ks] kl by (simp add: unf)
  show "\<forall>i<length (rows t). isActiveRow wi (rows (clampTable cap lrd t) ! i)
            \<longrightarrow> rows (clampTable cap lrd t) ! i = rows t ! i"
  proof (intro allI impI)
    fix i assume i: "i < length (rows t)"
      and a: "isActiveRow wi (rows (clampTable cap lrd t) ! i)"
    have row: "rows (clampTable cap lrd t) ! i = clampRow wi d r cap keep (rows t ! i, i)"
      using i by (simp add: unf length_indexed nth_indexed)
    show "rows (clampTable cap lrd t) ! i = rows t ! i"
      using a demoteRow_not_active [OF nd' nr'] unfolding row
      by (simp add: clampRow_def split: if_splits)
  qed
  show "\<forall>i<length (rows t). \<not> isActiveRow wi (rows t ! i)
            \<longrightarrow> rows (clampTable cap lrd t) ! i = rows t ! i"
  proof (intro allI impI)
    fix i assume i: "i < length (rows t)" and a: "\<not> isActiveRow wi (rows t ! i)"
    have row: "rows (clampTable cap lrd t) ! i = clampRow wi d r cap keep (rows t ! i, i)"
      using i by (simp add: unf length_indexed nth_indexed)
    show "rows (clampTable cap lrd t) ! i = rows t ! i"
      using a unfolding row by (simp add: clampRow_def)
  qed
qed

lemma clampTable_row_width:
  assumes di: "findIndex isDayHeader (headers t) = Some di"
    and wi: "findIndex isWorkoutHeader (headers t) = Some wi"
    and c1: "cap < int (length (filter (isActiveRow wi) (rows t)))"
    and i: "i < length (rows t)"
    and w: "length (rows t ! i) = length (headers t)"
  shows "length (rows (clampTable cap lrd t) ! i) = length (headers t)"
proof -
  define d where "d = findIndex isDetailsHeader (headers t)"
  define r where "r = findIndex isRationaleHeader (headers t)"
  define row where "row = rows t ! i"
  have wi': "wi < length row"
    using findIndex_Some [OF wi] w by (simp add: row_def)
  have d': "\<And>k. d = Some k \<Longrightarrow> k < length row"
    using findIndex_Some [of isDetailsHeader "headers t"] w by (simp add: d_def row_def)
  have r': "\<And>k. r = Some k \<Longrightarrow> k < length row"
    using findIndex_Some [of isRationaleHeader "headers t"] w by (simp add: r_def row_def)
  have "length (demoteRow wi d r cap row) = length row"
    using wi' d' r' by (cases d; cases r) (simp_all add: demoteRow_def length_setCell)
  then have "length (clampRow wi d r cap keep (row, i)) = length row" for keep
    by (simp add: clampRow_def)
  then show ?thesis
    using i w unfolding clampTable_unfold [OF di wi c1] d_def [symmetric] r_def [symmetric]
    by (simp add: length_indexed nth_indexed row_def)
qed

text \<open>
  Claim C1. When the non-rest-like rows of a table with a day column and a workout column
  outnumber the cap, exactly \<open>cap\<close> non-rest-like rows should remain, a subset of the
  non-rest-like rows of the input, with row order, row count and table width unchanged.
  The lemmas \<open>clampTable_enforces\<close> and \<open>clampTable_row_width\<close> show this when the workout
  column is not also the details or the rationale column. The model answer \<open>aliasedText\<close>
  is parsed and tagged to \<open>aliasedTable\<close>, in which the header \<open>Workout Details\<close> is found
  both as the workout column and as the details column: the demoted row gets \<open>Rest Day\<close>
  and then, in the same cell, \<open>Recovery / optional mobility\<close>, which is not rest-like, so
  with cap 1 two non-rest-like rows remain.
\<close>

theorem clamp_aliased_columns_exceeds_cap:
  "enforceExpectedWeek (parseMarkdownTables aliasedText) 1 = [aliasedTable]
   \<and> nonRestCount aliasedTable = 2
   \<and> clampWeekToRunDayCap [aliasedTable] 1 ''Sunday''
       = [\<lparr>headers = [''Week'', ''Day'', ''Workout Details''],
           rows = [[Some ''Week 1'', Some ''Monday'', Some ''Recovery / optional mobility''],
                   [Some ''Week 1'', Some ''Tuesday'', Some ''Tempo'']]\<rparr>]
   \<and> map nonRestCount (clampWeekToRunDayCap [aliasedTable] 1 ''Sunday'') = [2]"
  by code_simp

text \<open>
  Claim C9. A table without a header equal to \<open>day\<close> (ignoring case), or without a header
  containing \<open>workout\<close> (ignoring case), is returned unchanged by \<open>clampWeekToRunDayCap\<close>,
  for every cap and every long-run day, however many non-rest-like rows it has.
\<close>

theorem clamp_unchanged_without_columns:
  assumes "k < length tables"
    and "(\<forall>h\<in>set (headers (tables ! k)). \<not> isDayHeader h)
         \<or> (\<forall>h\<in>set (headers (tables ! k)). \<not> isWorkoutHeader h)"
  shows "clampWeekToRunDayCap tables cap lrd ! k = tables ! k"
proof -
  from assms(2) have "findIndex isDayHeader (headers (tables ! k)) = None
      \<or> findIndex isWorkoutHeader (headers (tables ! k)) = None"
    by (simp add: findIndex_None)
  then have "clampTable cap lrd (tables ! k) = tables ! k"
    by (auto simp: clampTable_def split: option.split)
  with assms(1) show ?thesis
    by (simp add: clampWeekToRunDayCap_def)
qed

theorem clamp_unchanged_without_columns_witness:
  "list_all (\<lambda>h. \<not> isDayHeader h) (headers noDayTable)
   \<and> nonRestCount noDayTable = 3
   \<and> clampWeekToRunDayCap [noDayTable] 1 ''Sunday'' ! 0 = noDayTable"
proof -
  have h: "\<forall>h\<in>set (headers ([noDayTable] ! 0)). \<not> isDayHeader h"
    by code_simp
  have n: "nonRestCount noDayTable = 3"
    by code_simp
  from clamp_unchanged_without_columns [of 0 "[noDayTable]" 1 "''Sunday''"] h n
  show ?thesis by (simp add: list_all_iff)
qed

section \<open>The run-day setting\<close>

text \<open>
  Claim C10. For every input string \<open>parseRunDayCap\<close> returns an integer between 1 and 7, and
  it returns 4 when the trimmed string does not parse to a finite integer.
\<close>

theorem parseRunDayCap_range:
  "1 \<le> parseRunDayCap v \<and> parseRunDayCap v \<le> 7
   \<and> (\<not> isFinite (parseInt10 (trim v)) \<longrightarrow> parseRunDayCap v = 4)"
  by (simp add: parseRunDayCap_def isFinite_def split: jsnumber.split)

theorem parseRunDayCap_range_witness:
  "\<not> isFinite (parseInt10 (trim ''four'')) \<and> parseRunDayCap ''four'' = 4"
proof -
  have h: "\<not> isFinite (parseInt10 (trim ''four''))"
    by code_simp
  with parseRunDayCap_range [of "''four''"] show ?thesis
    by blast
qed

section \<open>Week tagging\<close>

lemma isWeekHeader_Week: "isWeekHeader ''Week''"
  by (simp add: isWeekHeader_def toLowerCase_def toLowerChar_def)

lemma enforceExpectedWeekTable_idem:
  "enforceExpectedWeekTable n (enforceExpectedWeekTable n t) = enforceExpectedWeekTable n t"
proof (cases "findIndex isWeekHeader (headers t)")
  case None
  have "findIndex isWeekHeader (''Week'' # headers t) = Some 0"
    using isWeekHeader_Week by (simp add: findIndex_def)
  with None show ?thesis
    by (simp add: enforceExpectedWeekTable_def setCell_def comp_def)
next
  case (Some k)
  then show ?thesis
    by (simp add: enforceExpectedWeekTable_def setCell_idem comp_def)
qed

text \<open>
  Claim C6. \<open>enforceExpectedWeek\<close> is idempotent: for every list of tables and every week
  number, applying it twice with the same week number gives what applying it once gives.
\<close>

theorem enforceExpectedWeek_idempotent:
  "enforceExpectedWeek (enforceExpectedWeek tables weekNumber) weekNumber
   = enforceExpectedWeek tables weekNumber"
  by (simp add: enforceExpectedWeek_def enforceExpectedWeekTable_idem comp_def)

section \<open>Markdown tables\<close>

lemma splitOn_not_Nil: "splitOn sep s \<noteq> []"
  by (induction s) (simp_all split: list.split)

lemma parseCells_not_Nil: "parseCells line \<noteq> []"
  by (simp add: parseCells_def splitOn_not_Nil)

lemma normalizeRow_repair:
  assumes "1 \<le> w"
  shows "normalizeRow w row = repairToWidth w row"
proof -
  have e: "int w - 1 = int (w - 1)"
    using assms by simp
  have a: "jsSlice row 0 (int w - 1) = take (w - 1) row"
    unfolding e by (simp add: jsSlice_take)
  have b: "jsSliceFrom row (int w - 1) = drop (w - 1) row"
    unfolding e by (rule jsSliceFrom_drop)
  show ?thesis
    unfolding normalizeRow_def repairToWidth_def a b by simp
qed

lemma length_repairToWidth:
  assumes "1 \<le> w"
  shows "length (repairToWidth w row) = w"
  using assms by (simp add: repairToWidth_def)

lemma tableOfBlock_qualifying:
  assumes "3 \<le> length block" and "includesStr (block ! 1) ''---''"
  shows "tableOfBlock block =
     Some \<lparr>headers = parseCells (block ! 0),
           rows = map (\<lambda>line. map Some (repairToWidth (length (parseCells (block ! 0)))
                                             (parseCells line)))
                      (drop 2 block)\<rparr>"
proof -
  define w where "w = length (parseCells (block ! 0))"
  have w: "1 \<le> w"
    using parseCells_not_Nil [of "block ! 0"] by (cases "parseCells (block ! 0)") (simp_all add: w_def)
  have d: "jsSliceFrom block 2 = drop 2 block"
    using jsSliceFrom_drop [of block 2] by simp
  have f: "filter (\<lambda>row. length row = w) (map (normalizeRow w) (map parseCells (drop 2 block)))
           = map (\<lambda>line. repairToWidth w (parseCells line)) (drop 2 block)"
    using w by (simp add: normalizeRow_repair length_repairToWidth comp_def)
  have ne: "drop 2 block \<noteq> []"
    using assms(1) by simp
  show ?thesis
    using assms ne unfolding tableOfBlock_def d Let_def w_def [symmetric] f
    by (simp add: comp_def)
qed

lemma scanLines_append:
  assumes "pre = [] \<or> \<not> isPipeLine (last pre)"
  shows "scanLines (pre @ ys) = scanLines pre @ scanLines ys"
  using assms
proof (induction pre rule: scanLines.induct)
  case 1
  show ?case by simp
next
  case (2 l ls)
  from "2.prems" have lastnp: "\<not> isPipeLine (last (l # ls))"
    by simp
  show ?case
  proof (cases "isPipeLine l")
    case False
    have "ls = [] \<or> \<not> isPipeLine (last ls)"
      using lastnp by (cases ls) simp_all
    with "2.IH"(1) [OF False] False show ?thesis
      by simp
  next
    case True
    with lastnp have lsne: "ls \<noteq> []"
      by auto
    with lastnp have ex: "\<exists>x\<in>set ls. \<not> isPipeLine x"
      using last_in_set [of ls] by auto
    then obtain x where x: "x \<in> set ls" "\<not> isPipeLine x"
      by blast
    have tw: "takeWhile isPipeLine (ls @ ys) = takeWhile isPipeLine ls"
      using x by (rule takeWhile_append1)
    have dw: "dropWhile isPipeLine (ls @ ys) = dropWhile isPipeLine ls @ ys"
      using x by (rule dropWhile_append1)
    from ex have dne: "dropWhile isPipeLine ls \<noteq> []"
      by (simp add: dropWhile_eq_Nil_conv)
    have "last (dropWhile isPipeLine ls) = last ls"
      using dne by (metis last_appendR takeWhile_dropWhile_id)
    with lastnp lsne have rest: "dropWhile isPipeLine ls = [] \<or> \<not> isPipeLine (last (dropWhile isPipeLine ls))"
      by simp
    show ?thesis
    proof (cases "tableOfBlock (l # takeWhile isPipeLine ls)")
      case None
      with "2.IH"(2) [OF _ None rest] True tw dw show ?thesis
        by simp
    next
      case (Some t)
      with "2.IH"(3) [OF _ Some rest] True tw dw show ?thesis
        by simp
    qed
  qed
qed

lemma scanLines_block:
  assumes "block \<noteq> []" and "\<forall>l\<in>set block. isPipeLine l"
    and "post = [] \<or> \<not> isPipeLine (hd post)"
  shows "scanLines (block @ post) =
     (case tableOfBlock block of None \<Rightarrow> [] | Some t \<Rightarrow> [t]) @ scanLines post"
proof -
  obtain b bs where block: "block = b # bs"
    using assms(1) by (cases block) auto
  have tw: "takeWhile isPipeLine (bs @ post) = bs"
    using assms(2,3) unfolding block by (cases post) (simp_all add: takeWhile_append2)
  have dw: "dropWhile isPipeLine (bs @ post) = post"
    using assms(2,3) unfolding block by (cases post) (simp_all add: dropWhile_append2)
  show ?thesis
    using assms(2) tw dw unfolding block by (simp split: option.split)
qed

text \<open>
  Claim C5. A qualifying block (at least three pipe-delimited lines, \<open>---\<close> in the second)
  gives one table: its header is read from the first line, its data rows from the third
  line onward, each repaired to the width of the header (overflow joined into the last
  column with \<open>" | "\<close>, short rows padded with empty strings); every repaired row has the
  width of the header. The block stands between lines \<open>pre\<close> and \<open>post\<close> that do not extend it.
\<close>

theorem parseMarkdownTables_block:
  assumes lines: "map trim (splitOn (CHR 0x0A) text) = pre @ block @ post"
    and pre: "pre = [] \<or> \<not> isPipeLine (last pre)"
    and post: "post = [] \<or> \<not> isPipeLine (hd post)"
    and pipes: "\<forall>l\<in>set block. isPipeLine l"
    and len: "3 \<le> length block"
    and sep: "includesStr (block ! 1) ''---''"
  shows "parseMarkdownTables text =
           scanLines pre
           @ [\<lparr>headers = parseCells (block ! 0),
                rows = map (\<lambda>line. map Some (repairToWidth (length (parseCells (block ! 0)))
                                                  (parseCells line)))
                           (drop 2 block)\<rparr>]
           @ scanLines post
         \<and> (\<forall>line\<in>set (drop 2 block).
               length (repairToWidth (length (parseCells (block ! 0))) (parseCells line))
               = length (parseCells (block ! 0)))"
proof
  have ne: "block \<noteq> []"
    using len by auto
  show "parseMarkdownTables text =
           scanLines pre
           @ [\<lparr>headers = parseCells (block ! 0),
                rows = map (\<lambda>line. map Some (repairToWidth (length (parseCells (block ! 0)))
                                                  (parseCells line)))
                           (drop 2 block)\<rparr>]
           @ scanLines post"
    unfolding parseMarkdownTables_def lines
    by (simp add: scanLines_append [OF pre] scanLines_block [OF ne pipes post]
        tableOfBlock_qualifying [OF len sep])
  have "1 \<le> length (parseCells (block ! 0))"
    using parseCells_not_Nil [of "block ! 0"] by (cases "parseCells (block ! 0)") simp_all
  then show "\<forall>line\<in>set (drop 2 block).
           length (repairToWidth (length (parseCells (block ! 0))) (parseCells line))
           = length (parseCells (block ! 0))"
    by (simp add: length_repairToWidth)
qed

theorem parseMarkdownTables_block_witness:
  "map trim (splitOn (CHR 0x0A) pipeText)
     = [''Plan:''] @ [''| Day | Workout |'', ''|---|---|'', ''| Mon | Easy | 5 km |'', ''| Tue |'']
       @ [''Done.'']
   \<and> list_all isPipeLine [''| Day | Workout |'', ''|---|---|'', ''| Mon | Easy | 5 km |'', ''| Tue |'']
   \<and> parseMarkdownTables pipeText
     = [\<lparr>headers = [''Day'', ''Workout''],
          rows = [[Some ''Mon'', Some ''Easy | 5 km''], [Some ''Tue'', Some []]]\<rparr>]"
proof -
  define block where
    "block = [''| Day | Workout |'', ''|---|---|'', ''| Mon | Easy | 5 km |'', ''| Tue |'']"
  have lines: "map trim (splitOn (CHR 0x0A) pipeText) = [''Plan:''] @ block @ [''Done.'']"
    unfolding block_def by code_simp
  have pre: "[''Plan:''] = [] \<or> \<not> isPipeLine (last [''Plan:''])"
    by code_simp
  have post: "[''Done.''] = [] \<or> \<not> isPipeLine (hd [''Done.''])"
    by code_simp
  have pipes: "\<forall>l\<in>set block. isPipeLine l"
    unfolding block_def by code_simp
  have len: "3 \<le> length block"
    unfolding block_def by simp
  have sep: "includesStr (block ! 1) ''---''"
    unfolding block_def by code_simp
  have pre0: "scanLines [''Plan:''] = []"
    by code_simp
  have post0: "scanLines [''Done.''] = []"
    by code_simp
  have tab: "\<lparr>headers = parseCells (block ! 0),
                rows = map (\<lambda>line. map Some (repairToWidth (length (parseCells (block ! 0)))
                                                  (parseCells line)))
                           (drop 2 block)\<rparr>
        = \<lparr>headers = [''Day'', ''Workout''],
          rows = [[Some ''Mon'', Some ''Easy | 5 km''], [Some ''Tue'', Some []]]\<rparr>"
    unfolding block_def by code_simp
  from parseMarkdownTables_block [OF lines pre post pipes len sep]
  have "parseMarkdownTables pipeText
     = [\<lparr>headers = [''Day'', ''Workout''],
          rows = [[Some ''Mon'', Some ''Easy | 5 km''], [Some ''Tue'', Some []]]\<rparr>]"
    unfolding pre0 post0 tab by simp
  with lines pipes show ?thesis
    unfolding block_def by (simp add: list_all_iff)
qed

section \<open>History digest\<close>

lemma foldl_push:
  "foldl (\<lambda>acc row. if skip row then acc else acc @ [f row]) acc rws
   = acc @ map f (filter (\<lambda>row. \<not> skip row) rws)"
  by (induction rws arbitrary: acc) simp_all

lemma skipsRow_belongs:
  "\<not> skipsRow (findIndex isWeekHeader (headers table)) n row \<longleftrightarrow> belongsToWeek n table row"
  by (auto simp: skipsRow_def belongsToWeek_def truthy_def split: option.split)

lemma pushTableLines_append:
  "pushTableLines n acc table
   = acc @ map (bulletOf table) (filter (belongsToWeek n table) (rows table))"
  unfolding pushTableLines_def Let_def foldl_push skipsRow_belongs bulletOf_def ..

lemma foldl_pushTableLines:
  "foldl (pushTableLines n) acc tables = acc @ weekBullets n tables"
  by (induction tables arbitrary: acc) (simp_all add: weekBullets_def pushTableLines_append)

text \<open>
  Claim C8, as amended. The digest is the header line \<open>Week n Summary:\<close> followed by the
  bullets of the first seven rows that belong to week \<open>n\<close>, at most seven lines; a row
  belongs when its table has no week column, when its week cell is missing or empty, or
  when its week cell contains \<open>week n\<close> ignoring case.
\<close>

theorem summarizeWeekForHistory_digest:
  "summarizeWeekForHistory tables n
     = joinWith [CHR 0x0A]
         ((''Week '' @ numberToString n @ '' Summary:'') # take 7 (weekBullets n tables))
   \<and> length (take 7 (weekBullets n tables)) \<le> 7"
  by (simp add: summarizeWeekForHistory_def foldl_pushTableLines jsSlice_take)

theorem summarizeWeekForHistory_digest_witness:
  "belongsToWeek 1 blankWeekTable [Some [], Some ''Mon'', Some ''Run'']
   \<and> summarizeWeekForHistory [blankWeekTable] 1
       = ''Week 1 Summary:'' @ [CHR 0x0A] @ ''- Mon: Run''"
proof -
  have b: "belongsToWeek 1 blankWeekTable [Some [], Some ''Mon'', Some ''Run'']"
    by code_simp
  have w: "joinWith [CHR 0x0A]
         ((''Week '' @ numberToString 1 @ '' Summary:'') # take 7 (weekBullets 1 [blankWeekTable]))
      = ''Week 1 Summary:'' @ [CHR 0x0A] @ ''- Mon: Run''"
    by code_simp
  from summarizeWeekForHistory_digest [of "[blankWeekTable]" 1] b w show ?thesis
    by simp
qed

text \<open>
  The claim as stated fails: \<open>blankWeekTable\<close> has a week column, its row has an empty week
  cell, which does not contain \<open>week 1\<close>, and the row still contributes a bullet.
\<close>

theorem summarizeWeekForHistory_blank_week_cell:
  "findIndex isWeekHeader (headers blankWeekTable) = Some 0
   \<and> cellAt [Some [], Some ''Mon'', Some ''Run''] 0 = Some []
   \<and> includesStr (toLowerCase []) (toLowerCase (''week '' @ numberToString 1)) = False
   \<and> summarizeWeekForHistory [blankWeekTable] 1
       = ''Week 1 Summary:'' @ [CHR 0x0A] @ ''- Mon: Run''"
  by code_simp

section \<open>Which rows the cap keeps\<close>

lemma set_insertSorted: "set (insertSorted compare x ys) = insert x (set ys)"
  by (induction ys) auto

lemma set_sortWith: "set (sortWith compare xs) = set xs"
  using mset_sortWith [of compare xs] by (rule mset_eq_setD)

lemma sortWith_Cons: "sortWith compare (x # xs) = insertSorted compare x (sortWith compare xs)"
  by (simp add: sortWith_def)

lemma ranksAhead_irrefl: "\<not> ranksAhead p p"
  by (simp add: ranksAhead_def split: option.split)

lemma ranksAhead_trans: "ranksAhead p q \<Longrightarrow> ranksAhead q r \<Longrightarrow> ranksAhead p r"
  by (auto simp: ranksAhead_def split: option.splits)

lemma insertSorted_ranked:
  assumes "sorted_wrt ranksAhead ys" and "\<forall>y\<in>set ys. fst x < fst y"
    and "snd x \<noteq> None" and "\<forall>y\<in>set ys. snd y \<noteq> None"
  shows "sorted_wrt ranksAhead (insertSorted compareScores x ys)"
  using assms
proof (induction ys)
  case Nil
  show ?case by simp
next
  case (Cons y ys)
  from Cons.prems obtain sx sy where sx: "snd x = Some sx" and sy: "snd y = Some sy"
    by auto
  show ?case
  proof (cases "compareScores x y \<le> 0")
    case True
    then have "sy \<le> sx"
      by (simp add: compareScores_def sx sy)
    moreover have "fst x < fst y"
      using Cons.prems(2) by simp
    ultimately have xy: "ranksAhead x y"
      by (auto simp: ranksAhead_def sx sy)
    have "ranksAhead x z" if "z \<in> set ys" for z
    proof -
      have "ranksAhead y z"
        using Cons.prems(1) that by simp
      with xy show ?thesis
        by (rule ranksAhead_trans)
    qed
    with xy True Cons.prems(1) show ?thesis
      by simp
  next
    case False
    then have "sx < sy"
      by (simp add: compareScores_def sx sy)
    then have yx: "ranksAhead y x"
      by (simp add: ranksAhead_def sx sy)
    have rest: "sorted_wrt ranksAhead (insertSorted compareScores x ys)"
      using Cons.prems by (intro Cons.IH) simp_all
    have "\<forall>w\<in>set (insertSorted compareScores x ys). ranksAhead y w"
      using yx Cons.prems(1) by (simp add: set_insertSorted)
    with rest False show ?thesis
      by simp
  qed
qed

lemma sortWith_ranked:
  assumes "sorted_wrt (\<lambda>p q. fst p < fst q) xs" and "\<forall>y\<in>set xs. snd y \<noteq> None"
  shows "sorted_wrt ranksAhead (sortWith compareScores xs)"
  using assms
proof (induction xs)
  case Nil
  show ?case by (simp add: sortWith_def)
next
  case (Cons x xs)
  have "sorted_wrt ranksAhead (sortWith compareScores xs)"
    using Cons.prems by (intro Cons.IH) simp_all
  then show ?case
    unfolding sortWith_Cons using Cons.prems
    by (intro insertSorted_ranked) (simp_all add: set_sortWith)
qed

text \<open>
  In a list sorted by a strict order, an element is among the first \<open>c\<close> exactly when
  fewer than \<open>c\<close> elements come before it in the order.
\<close>

lemma sorted_wrt_take_iff:
  assumes srt: "sorted_wrt R ys" and irr: "\<And>x. \<not> R x x"
    and tr: "\<And>x y z. R x y \<Longrightarrow> R y z \<Longrightarrow> R x z" and x: "x \<in> set ys"
  shows "x \<in> set (take c ys) \<longleftrightarrow> card {y \<in> set ys. R y x} < c"
proof -
  from x obtain p where p: "p < length ys" and yp: "ys ! p = x"
    by (auto simp: in_set_conv_nth)
  have less: "R (ys ! i) (ys ! j)" if "i < j" and "j < length ys" for i j
    using sorted_wrt_nth_less [OF srt that] .
  have neq: "ys ! i \<noteq> ys ! j" if "i < j" and "j < length ys" for i j
    using less [OF that] irr by auto
  have dist: "distinct ys"
    unfolding distinct_conv_nth
  proof (intro allI impI)
    fix i j assume "i < length ys" and "j < length ys" and "i \<noteq> j"
    then show "ys ! i \<noteq> ys ! j"
      using neq [of i j] neq [of j i] by (cases "i < j") auto
  qed
  have eq: "{y \<in> set ys. R y x} = set (take p ys)"
  proof (rule set_eqI)
    fix y
    show "y \<in> {y \<in> set ys. R y x} \<longleftrightarrow> y \<in> set (take p ys)"
    proof
      assume "y \<in> {y \<in> set ys. R y x}"
      then obtain q where q: "q < length ys" and yq: "ys ! q = y" and r: "R y x"
        by (auto simp: in_set_conv_nth)
      have "q < p"
      proof (rule ccontr)
        assume "\<not> q < p"
        then have "q = p \<or> p < q" by auto
        then show False
        proof
          assume "q = p"
          with yq yp r irr show False by auto
        next
          assume "p < q"
          from less [OF this q] have "R x y" by (simp add: yp yq)
          from tr [OF this r] irr show False by auto
        qed
      qed
      with p yq show "y \<in> set (take p ys)"
        by (auto simp: in_set_conv_nth intro!: exI [of _ q])
    next
      assume "y \<in> set (take p ys)"
      then obtain q where q: "q < p" and yq: "ys ! q = y"
        using p by (auto simp: in_set_conv_nth)
      have "R y x"
        using less [OF q p] by (simp add: yp yq)
      moreover have "y \<in> set ys"
        using q p yq by auto
      ultimately show "y \<in> {y \<in> set ys. R y x}"
        by simp
    qed
  qed
  have "card {y \<in> set ys. R y x} = p"
    unfolding eq using p dist by (simp add: distinct_card)
  moreover have "x \<in> set (take c ys) \<longleftrightarrow> p < c"
  proof
    assume "x \<in> set (take c ys)"
    then obtain q where q: "q < c" "q < length ys" and yq: "ys ! q = x"
      by (auto simp: in_set_conv_nth)
    have "q = p"
      using nth_eq_iff_index_eq [OF dist q(2) p] yq yp by simp
    with q show "p < c" by simp
  next
    assume "p < c"
    with p yp show "x \<in> set (take c ys)"
      by (auto simp: in_set_conv_nth intro!: exI [of _ p])
  qed
  ultimately show ?thesis
    by simp
qed

lemma map_fst_scoredRows: "map fst (scoredRows di wi lr rws) = activeIndexes wi rws"
  unfolding scoredRows_def by (rule map_fst_scored)

lemma sorted_scoredRows: "sorted_wrt (\<lambda>p q. fst p < fst q) (scoredRows di wi lr rws)"
proof -
  have "sorted_wrt (<) (map snd (indexed rws))"
    unfolding map_snd_indexed by simp
  then have "sorted_wrt (\<lambda>p q. snd p < snd q) (indexed rws)"
    by (simp add: sorted_wrt_map)
  then have "sorted_wrt (\<lambda>p q. snd p < snd q)
               (filter (\<lambda>(row, idx). isActiveRow wi row) (indexed rws))"
    by (rule sorted_wrt_filter)
  then show ?thesis
    by (simp add: scoredRows_def sorted_wrt_map case_prod_unfold)
qed

lemma set_scoredRows:
  "set (scoredRows di wi lr rws)
   = (\<lambda>i. (i, rowScore di wi lr (rws ! i) i)) ` {i. i < length rws \<and> isActiveRow wi (rws ! i)}"
proof -
  have "set (scoredRows di wi lr rws)
      = (\<lambda>p. (snd p, rowScore di wi lr (fst p) (snd p))) ` {p \<in> set (indexed rws). isActiveRow wi (fst p)}"
    by (simp add: scoredRows_def case_prod_unfold)
  also have "{p \<in> set (indexed rws). isActiveRow wi (fst p)}
      = (\<lambda>i. (rws ! i, i)) ` {i. i < length rws \<and> isActiveRow wi (rws ! i)}"
  proof (rule set_eqI)
    fix p :: "cell list \<times> nat"
    obtain row i where p: "p = (row, i)" by (cases p)
    show "p \<in> {p \<in> set (indexed rws). isActiveRow wi (fst p)}
          \<longleftrightarrow> p \<in> (\<lambda>i. (rws ! i, i)) ` {i. i < length rws \<and> isActiveRow wi (rws ! i)}"
      unfolding p by (auto simp: in_set_indexed)
  qed
  finally show ?thesis
    by (simp add: image_image)
qed

lemma rowScore_defined:
  assumes "dayKey di row \<notin> set objectPrototypeKeys"
  shows "rowScore di wi lr row idx \<noteq> None"
  using assms
  by (simp add: rowScore_def dayKey_def DAY_INDEX_def orElse_def Let_def
           split: option.split dayValue.split)

text \<open>
  The kept rows are the first \<open>cap\<close> in rank order: when no score is \<open>NaN\<close>, an active row
  is kept exactly when fewer than \<open>cap\<close> active rows are ahead of it.
\<close>

lemma keepIndexes_iff:
  assumes c0: "0 \<le> cap" and i: "i < length rws" and act: "isActiveRow wi (rws ! i)"
    and defined: "\<forall>j<length rws. isActiveRow wi (rws ! j) \<longrightarrow> rowScore di wi lr (rws ! j) j \<noteq> None"
  shows "i \<in> set (keepIndexes di wi lr cap rws) \<longleftrightarrow> length (rowsAhead di wi lr rws i) < nat cap"
proof -
  let ?sc = "\<lambda>j. rowScore di wi lr (rws ! j) j"
  let ?x = "(i, ?sc i)"
  let ?ys = "sortWith compareScores (scoredRows di wi lr rws)"
  let ?A = "{j. j < length rws \<and> isActiveRow wi (rws ! j)}"
  have keep: "keepIndexes di wi lr cap rws = map fst (take (nat cap) ?ys)"
    using c0 by (simp add: keepIndexes_take scoredRows_def take_map)
  have ys: "set ?ys = (\<lambda>j. (j, ?sc j)) ` ?A"
    by (simp add: set_sortWith set_scoredRows)
  have x: "?x \<in> set ?ys"
    using i act by (simp add: ys)
  have "\<forall>y\<in>set (scoredRows di wi lr rws). snd y \<noteq> None"
    using defined by (auto simp: set_scoredRows)
  then have srt: "sorted_wrt ranksAhead ?ys"
    by (intro sortWith_ranked sorted_scoredRows)
  have mem: "i \<in> set (keepIndexes di wi lr cap rws) \<longleftrightarrow> ?x \<in> set (take (nat cap) ?ys)"
  proof
    assume "i \<in> set (keepIndexes di wi lr cap rws)"
    then obtain y where y: "y \<in> set (take (nat cap) ?ys)" and f: "fst y = i"
      by (auto simp: keep)
    from y have "y \<in> set ?ys"
      by (rule in_set_takeD)
    with f have "y = ?x"
      by (auto simp: ys)
    with y show "?x \<in> set (take (nat cap) ?ys)"
      by simp
  next
    assume "?x \<in> set (take (nat cap) ?ys)"
    then have "fst ?x \<in> fst ` set (take (nat cap) ?ys)"
      by (rule imageI)
    then show "i \<in> set (keepIndexes di wi lr cap rws)"
      by (simp add: keep)
  qed
  have "{y \<in> set ?ys. ranksAhead y ?x} = (\<lambda>j. (j, ?sc j)) ` set (rowsAhead di wi lr rws i)"
    by (auto simp: ys rowsAhead_def)
  moreover have "inj_on (\<lambda>j. (j, ?sc j)) (set (rowsAhead di wi lr rws i))"
    by (rule inj_onI) simp
  ultimately have "card {y \<in> set ?ys. ranksAhead y ?x} = card (set (rowsAhead di wi lr rws i))"
    by (simp add: card_image)
  also have "\<dots> = length (rowsAhead di wi lr rws i)"
    by (rule distinct_card) (simp add: rowsAhead_def)
  finally have card: "card {y \<in> set ?ys. ranksAhead y ?x} = length (rowsAhead di wi lr rws i)" .
  have "?x \<in> set (take (nat cap) ?ys) \<longleftrightarrow> card {y \<in> set ?ys. ranksAhead y ?x} < nat cap"
    using srt ranksAhead_irrefl ranksAhead_trans x by (rule sorted_wrt_take_iff)
  with mem card show ?thesis
    by simp
qed

lemma DAY_INDEX_Sunday: "orElse (DAY_INDEX (toLowerCase ''Sunday'')) (DayOffset 6) = DayOffset 6"
  by code_simp

text \<open>
  Claim C4, as amended. Take a week table with 8 non-rest-like rows, cap 4 and long-run day
  Sunday, containing a non-rest-like long run on Sunday and a non-rest-like tempo run on
  Tuesday, in which the workout column is not also the details or the rationale column and
  no non-rest-like row has a day cell that names a property inherited from
  \<open>Object.prototype\<close> (\<open>constructor\<close> or \<open>__proto__\<close>, in any letter case). Then exactly 4
  non-rest-like rows remain, and each of the two rows is kept unchanged exactly when fewer
  than 4 non-rest-like rows are ahead of it in rank: rows with a higher score, or with the
  same score and an earlier position. The score is the one the source computes, in
  doubles: 100 for a long run on the long-run day, plus 50 for a quality session, plus 25
  for a long run, minus 0.1 times the day offset (7 for an unknown day), minus 0.01 times
  the row index.
\<close>

theorem clamp_keeps_long_run_and_tempo:
  assumes k: "k < length tables"
    and di: "findIndex isDayHeader (headers (tables ! k)) = Some di"
    and wi: "findIndex isWorkoutHeader (headers (tables ! k)) = Some wi"
    and nd: "findIndex isDetailsHeader (headers (tables ! k)) \<noteq> Some wi"
    and nr: "findIndex isRationaleHeader (headers (tables ! k)) \<noteq> Some wi"
    and n8: "length (filter (isActiveRow wi) (rows (tables ! k))) = 8"
    and named: "\<forall>row\<in>set (rows (tables ! k)).
                  isActiveRow wi row \<longrightarrow> dayKey di row \<notin> set objectPrototypeKeys"
    and a: "a < length (rows (tables ! k))"
    and a_active: "isActiveRow wi (rows (tables ! k) ! a)"
    and a_long: "isLongWorkout (workoutText wi (rows (tables ! k) ! a))"
    and a_sunday: "DAY_INDEX (dayKey di (rows (tables ! k) ! a)) = Some (DayOffset 6)"
    and b: "b < length (rows (tables ! k))"
    and b_active: "isActiveRow wi (rows (tables ! k) ! b)"
    and b_tempo: "includesStr (toLowerCase (workoutText wi (rows (tables ! k) ! b))) ''tempo''"
    and b_tuesday: "DAY_INDEX (dayKey di (rows (tables ! k) ! b)) = Some (DayOffset 1)"
  shows "length (filter (isActiveRow wi) (rows (clampWeekToRunDayCap tables 4 ''Sunday'' ! k))) = 4
         \<and> (rows (clampWeekToRunDayCap tables 4 ''Sunday'' ! k) ! a = rows (tables ! k) ! a
              \<longleftrightarrow> length (rowsAhead di wi (DayOffset 6) (rows (tables ! k)) a) < 4)
         \<and> (rows (clampWeekToRunDayCap tables 4 ''Sunday'' ! k) ! b = rows (tables ! k) ! b
              \<longleftrightarrow> length (rowsAhead di wi (DayOffset 6) (rows (tables ! k)) b) < 4)"
proof -
  define t where "t = tables ! k"
  define keep where "keep = keepIndexes di wi (DayOffset 6) 4 (rows t)"
  define d where "d = findIndex isDetailsHeader (headers t)"
  define r where "r = findIndex isRationaleHeader (headers t)"
  have res: "clampWeekToRunDayCap tables 4 ''Sunday'' ! k = clampTable 4 ''Sunday'' t"
    using k by (simp add: clampWeekToRunDayCap_def t_def)
  have c1: "(4::int) < int (length (filter (isActiveRow wi) (rows t)))"
    using n8 by (simp add: t_def)
  have unf: "clampTable 4 ''Sunday'' t =
      \<lparr>headers = headers t, rows = map (clampRow wi d r 4 keep) (indexed (rows t))\<rparr>"
    using clampTable_unfold [OF di [folded t_def] wi [folded t_def] c1, of "''Sunday''"]
    unfolding DAY_INDEX_Sunday keep_def d_def r_def .
  have count: "length (filter (isActiveRow wi) (rows (clampTable 4 ''Sunday'' t))) = nat 4"
    by (rule clampTable_enforces(3) [OF di [folded t_def] wi [folded t_def]
          nd [folded t_def] nr [folded t_def] _ c1]) simp
  have nd': "d \<noteq> Some wi" and nr': "r \<noteq> Some wi"
    using nd nr by (simp_all add: d_def r_def t_def)
  have defined: "\<forall>j<length (rows t). isActiveRow wi (rows t ! j)
                   \<longrightarrow> rowScore di wi (DayOffset 6) (rows t ! j) j \<noteq> None"
  proof (intro allI impI)
    fix j assume j: "j < length (rows t)" and act: "isActiveRow wi (rows t ! j)"
    from j have "rows t ! j \<in> set (rows (tables ! k))"
      by (simp add: t_def)
    with named act have "dayKey di (rows t ! j) \<notin> set objectPrototypeKeys"
      by blast
    then show "rowScore di wi (DayOffset 6) (rows t ! j) j \<noteq> None"
      by (rule rowScore_defined)
  qed
  have kept: "rows (clampTable 4 ''Sunday'' t) ! i = rows t ! i
              \<longleftrightarrow> length (rowsAhead di wi (DayOffset 6) (rows t) i) < 4"
    if i: "i < length (rows t)" and act: "isActiveRow wi (rows t ! i)" for i
  proof -
    have row: "rows (clampTable 4 ''Sunday'' t) ! i = clampRow wi d r 4 keep (rows t ! i, i)"
      using i by (simp add: unf length_indexed nth_indexed)
    have "clampRow wi d r 4 keep (rows t ! i, i) = rows t ! i \<longleftrightarrow> i \<in> set keep"
    proof
      assume same: "clampRow wi d r 4 keep (rows t ! i, i) = rows t ! i"
      show "i \<in> set keep"
      proof (rule ccontr)
        assume "i \<notin> set keep"
        with act have "clampRow wi d r 4 keep (rows t ! i, i) = demoteRow wi d r 4 (rows t ! i)"
          by (simp add: clampRow_def)
        with same act demoteRow_not_active [OF nd' nr', of 4 "rows t ! i"] show False
          by simp
      qed
    next
      assume "i \<in> set keep"
      then show "clampRow wi d r 4 keep (rows t ! i, i) = rows t ! i"
        by (simp add: clampRow_def)
    qed
    also have "i \<in> set keep \<longleftrightarrow> length (rowsAhead di wi (DayOffset 6) (rows t) i) < nat 4"
      unfolding keep_def by (rule keepIndexes_iff [OF _ i act defined]) simp
    finally show ?thesis
      unfolding row by simp
  qed
  show ?thesis
    unfolding res t_def [symmetric]
    using count kept [OF a [folded t_def] a_active [folded t_def]]
      kept [OF b [folded t_def] b_active [folded t_def]] by simp
qed

theorem clamp_keeps_long_run_and_tempo_witness:
  "nonRestCount scenarioWeekTable = 8
   \<and> list_all (\<lambda>row. dayKey 1 row \<notin> set objectPrototypeKeys) (rows scenarioWeekTable)
   \<and> rowsAhead 1 2 (DayOffset 6) (rows scenarioWeekTable) 7 = []
   \<and> rowsAhead 1 2 (DayOffset 6) (rows scenarioWeekTable) 1 = [7]
   \<and> map nonRestCount (clampWeekToRunDayCap [scenarioWeekTable] 4 ''Sunday'') = [4]
   \<and> rows (clampWeekToRunDayCap [scenarioWeekTable] 4 ''Sunday'' ! 0) ! 7
       = [Some ''Week 1'', Some ''Sunday'', Some ''Long Run'', Some ''16 km'', Some ''Endurance'']
   \<and> rows (clampWeekToRunDayCap [scenarioWeekTable] 4 ''Sunday'' ! 0) ! 1
       = [Some ''Week 1'', Some ''Tuesday'', Some ''Tempo Run'', Some ''5 km'', Some ''Threshold'']"
proof -
  let ?ts = "[scenarioWeekTable]"
  have k: "0 < length ?ts"
    by simp
  have di: "findIndex isDayHeader (headers (?ts ! 0)) = Some 1"
    by code_simp
  have wi: "findIndex isWorkoutHeader (headers (?ts ! 0)) = Some 2"
    by code_simp
  have nd: "findIndex isDetailsHeader (headers (?ts ! 0)) \<noteq> Some 2"
    by code_simp
  have nr: "findIndex isRationaleHeader (headers (?ts ! 0)) \<noteq> Some 2"
    by code_simp
  have n8: "length (filter (isActiveRow 2) (rows (?ts ! 0))) = 8"
    by code_simp
  have all: "list_all (\<lambda>row. dayKey 1 row \<notin> set objectPrototypeKeys) (rows scenarioWeekTable)"
    by code_simp
  then have named: "\<forall>row\<in>set (rows (?ts ! 0)).
                      isActiveRow 2 row \<longrightarrow> dayKey 1 row \<notin> set objectPrototypeKeys"
    by (simp add: list_all_iff)
  have a: "7 < length (rows (?ts ! 0))"
    by code_simp
  have a_active: "isActiveRow 2 (rows (?ts ! 0) ! 7)"
    by code_simp
  have a_long: "isLongWorkout (workoutText 2 (rows (?ts ! 0) ! 7))"
    by code_simp
  have a_sunday: "DAY_INDEX (dayKey 1 (rows (?ts ! 0) ! 7)) = Some (DayOffset 6)"
    by code_simp
  have b: "1 < length (rows (?ts ! 0))"
    by code_simp
  have b_active: "isActiveRow 2 (rows (?ts ! 0) ! 1)"
    by code_simp
  have b_tempo: "includesStr (toLowerCase (workoutText 2 (rows (?ts ! 0) ! 1))) ''tempo''"
    by code_simp
  have b_tuesday: "DAY_INDEX (dayKey 1 (rows (?ts ! 0) ! 1)) = Some (DayOffset 1)"
    by code_simp
  have ahead7: "rowsAhead 1 2 (DayOffset 6) (rows scenarioWeekTable) 7 = []"
    by code_simp
  have ahead1: "rowsAhead 1 2 (DayOffset 6) (rows scenarioWeekTable) 1 = [7]"
    by code_simp
  have wi': "findIndex isWorkoutHeader (headers scenarioWeekTable) = Some 2"
    using wi by simp
  have n8': "nonRestCount scenarioWeekTable = 8"
    using n8 wi' by (simp add: nonRestCount_def)
  have hd: "headers (clampTable 4 ''Sunday'' scenarioWeekTable) = headers scenarioWeekTable"
    using di wi by (simp add: clampTable_def)
  have r7: "rows scenarioWeekTable ! 7
      = [Some ''Week 1'', Some ''Sunday'', Some ''Long Run'', Some ''16 km'', Some ''Endurance'']"
    by code_simp
  have r1: "rows scenarioWeekTable ! 1
      = [Some ''Week 1'', Some ''Tuesday'', Some ''Tempo Run'', Some ''5 km'', Some ''Threshold'']"
    by code_simp
  from clamp_keeps_long_run_and_tempo [OF k di wi nd nr n8 named a a_active a_long a_sunday
      b b_active b_tempo b_tuesday]
  show ?thesis
    using n8' all ahead7 ahead1 r7 r1 wi' hd
    by (simp add: clampWeekToRunDayCap_def nonRestCount_def)
qed

text \<open>
  The claim as stated fails: \<open>crowdedWeekTable\<close> has 8 non-rest-like rows, among them a
  tempo run on Tuesday and a long run on Sunday, but the long run and three quality sessions
  on Monday are ahead of the tempo run, which is demoted to a rest day. In
  \<open>aliasedWeekTable\<close>, also with 8 non-rest-like rows, a tempo run on Tuesday and a long run
  on Sunday, the workout column is the details column as well, and 8 non-rest-like rows
  remain. And a row with the day cell \<open>Constructor\<close> has the score \<open>NaN\<close>, with which the
  order of the sort is not determined.
\<close>

theorem clamp_demotes_tuesday_tempo:
  "nonRestCount crowdedWeekTable = 8
   \<and> rows crowdedWeekTable ! 3
       = [Some ''Week 1'', Some ''Tuesday'', Some ''Tempo Run'', Some ''5 km'', Some ''Threshold'']
   \<and> rows crowdedWeekTable ! 7
       = [Some ''Week 1'', Some ''Sunday'', Some ''Long Run'', Some ''16 km'', Some ''Endurance'']
   \<and> rowsAhead 1 2 (DayOffset 6) (rows crowdedWeekTable) 3 = [0, 1, 2, 7]
   \<and> rows (clampWeekToRunDayCap [crowdedWeekTable] 4 ''Sunday'' ! 0) ! 3
       = [Some ''Week 1'', Some ''Tuesday'', Some ''Rest Day'',
          Some ''Recovery / optional mobility'', Some ''Respect 4 training days/week'']
   \<and> nonRestCount aliasedWeekTable = 8
   \<and> map nonRestCount (clampWeekToRunDayCap [aliasedWeekTable] 4 ''Sunday'') = [8]
   \<and> rowScore 1 2 (DayOffset 6) inheritedDayRow 0 = None"
  by code_simp

section \<open>Structured week records\<close>

lemma dayFromEntry_day: "dayFromEntry d entry = Some r \<Longrightarrow> day r = d"
  by (auto simp: dayFromEntry_def split: option.splits)

lemma collectDays_inv:
  assumes "collectDays m es = Some m'" and "\<forall>d e. m d = Some e \<longrightarrow> day e = d"
  shows "\<forall>d e. m' d = Some e \<longrightarrow> day e = d"
  using assms
proof (induction es arbitrary: m)
  case Nil
  then show ?case by simp
next
  case (Cons entry es)
  show ?case
  proof (cases "entry = JNull")
    case True
    with Cons.prems(1) show ?thesis by simp
  next
    case notnull: False
    show ?thesis
    proof (cases "stringOr (getProp entry ''day'') []")
      case None
      with notnull Cons.prems(1) show ?thesis by simp
    next
      case (Some dv)
      show ?thesis
      proof (cases "normalizeDayName dv")
        case None
        with notnull Some Cons.prems(1) have "collectDays m es = Some m'" by simp
        from Cons.IH [OF this Cons.prems(2)] show ?thesis .
      next
        case nd: (Some nd)
        show ?thesis
        proof (cases "m nd")
          case (Some x)
          with notnull \<open>stringOr (getProp entry ''day'') [] = Some dv\<close> nd Cons.prems(1)
          have "collectDays m es = Some m'" by simp
          from Cons.IH [OF this Cons.prems(2)] show ?thesis .
        next
          case None
          show ?thesis
          proof (cases "dayFromEntry nd entry")
            case None
            with notnull \<open>stringOr (getProp entry ''day'') [] = Some dv\<close> nd \<open>m nd = None\<close>
              Cons.prems(1)
            show ?thesis by simp
          next
            case (Some r)
            with notnull \<open>stringOr (getProp entry ''day'') [] = Some dv\<close> nd \<open>m nd = None\<close>
              Cons.prems(1)
            have c: "collectDays (m(nd \<mapsto> r)) es = Some m'" by simp
            have "\<forall>d e. (m(nd \<mapsto> r)) d = Some e \<longrightarrow> day e = d"
              using Cons.prems(2) dayFromEntry_day [OF Some] by auto
            from Cons.IH [OF c this] show ?thesis .
          qed
        qed
      qed
    qed
  qed
qed

lemma WEEKDAY_NAMES_days:
  assumes "\<forall>d e. m d = Some e \<longrightarrow> day e = d"
  shows "map day (map (\<lambda>d. case m d of Some existing \<Rightarrow> existing | None \<Rightarrow> defaultDay d) ds) = ds"
proof -
  have "day (case m d of Some existing \<Rightarrow> existing | None \<Rightarrow> defaultDay d) = d" for d
    using assms by (cases "m d") (simp_all add: defaultDay_def)
  then show ?thesis
    by (simp add: comp_def)
qed

lemma weekFromParsed_days:
  assumes "weekFromParsed parsed ew = Some w"
  shows "map day (days w) = WEEKDAY_NAMES"
proof -
  from assms obtain entries byDay where "collectDays Map.empty entries = Some byDay"
    and w: "days w = map (\<lambda>d. case byDay d of Some existing \<Rightarrow> existing | None \<Rightarrow> defaultDay d)
                       WEEKDAY_NAMES"
    by (auto simp: weekFromParsed_def split: if_splits option.splits json.splits)
  from collectDays_inv [OF this(1)] have "\<forall>d e. byDay d = Some e \<longrightarrow> day e = d"
    by simp
  from WEEKDAY_NAMES_days [OF this] show ?thesis
    unfolding w .
qed

lemma parseWeekJsonFromText_days:
  assumes "parseWeekJsonFromText P text ew = Some w"
  shows "map day (days w) = WEEKDAY_NAMES"
  using assms weekFromParsed_days
  by (auto simp: parseWeekJsonFromText_def split: option.splits)


lemma isText_stringOr:
  assumes "isText v"
  shows "\<exists>s. stringOr v d = Some s"
  using assms by (cases "(v, d)" rule: stringOr.cases) (simp_all add: isText_def)

lemma dayFromEntry_typed:
  assumes "wellTypedEntry entry"
  shows "\<exists>r. dayFromEntry d entry = Some r"
proof -
  from assms obtain wt dt ra
    where "stringOr (getProp entry ''workoutType'') ''Rest Day'' = Some wt"
      and "stringOr (getProp entry ''details'') [] = Some dt"
      and "stringOr (getProp entry ''rationale'') [] = Some ra"
    unfolding wellTypedEntry_def using isText_stringOr by meson
  then show ?thesis
    by (simp add: dayFromEntry_def)
qed

lemma entryDay_typed:
  assumes "wellTypedEntry entry"
  shows "\<exists>dv. stringOr (getProp entry ''day'') [] = Some dv \<and> entryDay entry = normalizeDayName dv"
  using assms by (auto simp: wellTypedEntry_def isText_def entryDay_def)

lemma firstNamed_skip:
  assumes "entryDay entry \<noteq> Some d"
  shows "firstNamed (entry # es) d = firstNamed es d"
  using assms by (simp add: firstNamed_def)

lemma firstNamed_hit:
  assumes "entryDay entry = Some d"
  shows "firstNamed (entry # es) d = dayFromEntry d entry"
  using assms by (simp add: firstNamed_def)

lemma collectDays_typed:
  assumes "\<forall>e\<in>set es. wellTypedEntry e"
  shows "collectDays m es
         = Some (\<lambda>d. case m d of Some x \<Rightarrow> Some x | None \<Rightarrow> firstNamed es d)"
  using assms
proof (induction es arbitrary: m)
  case Nil
  have "(\<lambda>d. case m d of Some x \<Rightarrow> Some x | None \<Rightarrow> firstNamed [] d) = m"
    by (rule ext) (simp add: firstNamed_def split: option.split)
  then show ?case by simp
next
  case (Cons entry es)
  from Cons.prems have typed: "wellTypedEntry entry" and rest: "\<forall>e\<in>set es. wellTypedEntry e"
    by simp_all
  from typed have notnull: "entry \<noteq> JNull"
    by (simp add: wellTypedEntry_def)
  from entryDay_typed [OF typed] obtain dv
    where dv: "stringOr (getProp entry ''day'') [] = Some dv"
      and ed: "entryDay entry = normalizeDayName dv"
    by blast
  show ?case
  proof (cases "normalizeDayName dv")
    case None
    then have "firstNamed (entry # es) d = firstNamed es d" for d
      using ed by (intro firstNamed_skip) simp
    then have "(\<lambda>d. case m d of Some x \<Rightarrow> Some x | None \<Rightarrow> firstNamed (entry # es) d)
          = (\<lambda>d. case m d of Some x \<Rightarrow> Some x | None \<Rightarrow> firstNamed es d)"
      by (intro ext) (simp split: option.split)
    with None notnull dv Cons.IH [OF rest, of m] show ?thesis
      by simp
  next
    case nd: (Some nd)
    show ?thesis
    proof (cases "m nd")
      case (Some x)
      have pw: "(case m d of Some x \<Rightarrow> Some x | None \<Rightarrow> firstNamed (entry # es) d)
          = (case m d of Some x \<Rightarrow> Some x | None \<Rightarrow> firstNamed es d)" for d
      proof (cases "d = nd")
        case True
        with Some show ?thesis by simp
      next
        case False
        then have "firstNamed (entry # es) d = firstNamed es d"
          using ed nd by (intro firstNamed_skip) simp
        then show ?thesis by (simp cong: option.case_cong)
      qed
      have "(\<lambda>d. case m d of Some x \<Rightarrow> Some x | None \<Rightarrow> firstNamed (entry # es) d)
          = (\<lambda>d. case m d of Some x \<Rightarrow> Some x | None \<Rightarrow> firstNamed es d)"
        by (rule ext) (rule pw)
      with Some nd notnull dv Cons.IH [OF rest, of m] show ?thesis
        by simp
    next
      case None
      from dayFromEntry_typed [OF typed] obtain r where r: "dayFromEntry nd entry = Some r"
        by blast
      have pw: "(case (m(nd \<mapsto> r)) d of Some x \<Rightarrow> Some x | None \<Rightarrow> firstNamed es d)
          = (case m d of Some x \<Rightarrow> Some x | None \<Rightarrow> firstNamed (entry # es) d)" for d
      proof (cases "d = nd")
        case True
        have "firstNamed (entry # es) nd = Some r"
          using ed nd r by (simp add: firstNamed_hit)
        with True None show ?thesis by simp
      next
        case False
        then have "firstNamed (entry # es) d = firstNamed es d"
          using ed nd by (intro firstNamed_skip) simp
        with False show ?thesis by (simp cong: option.case_cong)
      qed
      have feq: "(\<lambda>d. case (m(nd \<mapsto> r)) d of Some x \<Rightarrow> Some x | None \<Rightarrow> firstNamed es d)
          = (\<lambda>d. case m d of Some x \<Rightarrow> Some x | None \<Rightarrow> firstNamed (entry # es) d)"
        by (rule ext) (rule pw)
      have step: "collectDays m (entry # es) = collectDays (m(nd \<mapsto> r)) es"
        using None nd notnull dv r by simp
      have ih: "collectDays (m(nd \<mapsto> r)) es
          = Some (\<lambda>d. case (m(nd \<mapsto> r)) d of Some x \<Rightarrow> Some x | None \<Rightarrow> firstNamed es d)"
        by (rule Cons.IH [OF rest])
      show ?thesis
        unfolding step ih feq ..
    qed
  qed
qed

lemma expectedDay_firstNamed:
  "(case firstNamed entries d of Some existing \<Rightarrow> existing | None \<Rightarrow> defaultDay d)
   = expectedDay entries d"
  by (simp add: firstNamed_def expectedDay_def split: option.split)

lemma length_WEEKDAY_NAMES: "length WEEKDAY_NAMES = 7"
  by (simp add: WEEKDAY_NAMES_def)

text \<open>
  Claim C2, as amended. For a JSON text whose \<open>days\<close> field is a list of entries, none of
  them \<open>null\<close>, whose \<open>day\<close>, \<open>workoutType\<close>, \<open>details\<close> and \<open>rationale\<close> fields, like the
  top-level \<open>verdict\<close> and \<open>reasoning\<close>, are strings, \<open>null\<close> or absent,
  \<open>parseWeekJsonFromText\<close> returns a week with exactly 7 day entries, one per canonical
  weekday in the order Monday to Sunday, whatever the order, duplicates or gaps of the
  input: a weekday that no entry names gets the default rest-day record, and for a weekday
  named more than once the first entry wins.
\<close>

theorem parseWeekJsonFromText_seven_days:
  assumes cand: "jsonCandidate text = Some c"
    and parsed: "P c = Some parsed"
    and dl: "getProp parsed ''days'' = Some (JArray entries)"
    and typed: "\<forall>e\<in>set entries. wellTypedEntry e"
    and tv: "isText (getProp parsed ''verdict'')"
    and tr: "isText (getProp parsed ''reasoning'')"
  shows "\<exists>w. parseWeekJsonFromText P text ew = Some w
             \<and> length (days w) = 7
             \<and> map day (days w) = WEEKDAY_NAMES
             \<and> days w = map (expectedDay entries) WEEKDAY_NAMES"
proof -
  from dl have notnull: "parsed \<noteq> JNull"
    by auto
  from isText_stringOr [OF tv] obtain v
    where v: "stringOr (getProp parsed ''verdict'') ''Maintenance'' = Some v"
    by blast
  from isText_stringOr [OF tr] obtain r
    where r: "stringOr (getProp parsed ''reasoning'') ''Balanced load and recovery.'' = Some r"
    by blast
  have cd: "collectDays Map.empty entries = Some (firstNamed entries)"
    using collectDays_typed [OF typed, of Map.empty] by simp
  obtain w where w: "weekFromParsed parsed ew = Some w"
    and dw: "days w = map (\<lambda>d. case firstNamed entries d of Some existing \<Rightarrow> existing
                                   | None \<Rightarrow> defaultDay d) WEEKDAY_NAMES"
    using notnull dl cd v r by (simp add: weekFromParsed_def)
  have res: "parseWeekJsonFromText P text ew = Some w"
    using cand parsed w by (simp add: parseWeekJsonFromText_def)
  have "days w = map (expectedDay entries) WEEKDAY_NAMES"
    unfolding dw expectedDay_firstNamed ..
  moreover have "map day (days w) = WEEKDAY_NAMES"
    using res by (rule parseWeekJsonFromText_days)
  moreover have "length (days w) = 7"
    unfolding dw by (simp add: length_WEEKDAY_NAMES)
  ultimately show ?thesis
    using res by blast
qed


theorem parseWeekJsonFromText_seven_days_witness:
  "jsonCandidate scenarioJsonText = Some scenarioCandidate
   \<and> exampleParse scenarioCandidate = Some scenarioJson
   \<and> getProp scenarioJson ''days'' = Some (JArray scenarioEntries)
   \<and> list_all wellTypedEntry scenarioEntries
   \<and> (\<exists>w. parseWeekJsonFromText exampleParse scenarioJsonText 1 = Some w
          \<and> map day (days w) = WEEKDAY_NAMES
          \<and> map workoutType (days w)
              = [''Easy Run'', ''Rest Day'', ''Rest Day'', ''Rest Day'', ''Rest Day'',
                 ''Rest Day'', ''Rest Day''])"
proof -
  have cand: "jsonCandidate scenarioJsonText = Some scenarioCandidate"
    by code_simp
  have parsed: "exampleParse scenarioCandidate = Some scenarioJson"
    by code_simp
  have dl: "getProp scenarioJson ''days'' = Some (JArray scenarioEntries)"
    by code_simp
  have typed: "\<forall>e\<in>set scenarioEntries. wellTypedEntry e"
    by code_simp
  have tv: "isText (getProp scenarioJson ''verdict'')"
    by code_simp
  have tr: "isText (getProp scenarioJson ''reasoning'')"
    by code_simp
  have ex: "map workoutType (map (expectedDay scenarioEntries) WEEKDAY_NAMES)
      = [''Easy Run'', ''Rest Day'', ''Rest Day'', ''Rest Day'', ''Rest Day'',
         ''Rest Day'', ''Rest Day'']"
    by code_simp
  from parseWeekJsonFromText_seven_days [where P = exampleParse and ew = 1, OF cand parsed dl typed tv tr]
  obtain w where "parseWeekJsonFromText exampleParse scenarioJsonText 1 = Some w"
    and "map day (days w) = WEEKDAY_NAMES"
    and "days w = map (expectedDay scenarioEntries) WEEKDAY_NAMES"
    by blast
  with ex cand parsed dl typed show ?thesis
    by (auto simp: list_all_iff)
qed

text \<open>
  The claim as stated fails: the JSON text \<open>{"days":[null]}\<close> has a list as its \<open>days\<close>
  field; reading \<open>entry.day\<close> of the \<open>null\<close> entry throws, the exception is caught, and the
  result is \<open>null\<close>, not a week of 7 days.
\<close>

theorem parseWeekJsonFromText_null_entry:
  "jsonCandidate nullDayJsonText = Some nullDayJsonText
   \<and> exampleParse nullDayJsonText = Some (JObject [(''days'', JArray [JNull])])
   \<and> getProp (JObject [(''days'', JArray [JNull])]) ''days'' = Some (JArray [JNull])
   \<and> parseWeekJsonFromText exampleParse nullDayJsonText 1 = None"
  by code_simp

section \<open>Calendar events\<close>

lemma DAY_INDEX_le: "DAY_INDEX s = Some (DayOffset k) \<Longrightarrow> k \<le> 6"
  by (auto simp: DAY_INDEX_def ownDayIndex_def split: option.splits if_splits)

lemma DAY_INDEX_inherited:
  "DAY_INDEX s = Some (InheritedObject name) \<Longrightarrow> s \<in> set objectPrototypeKeys"
  by (auto simp: DAY_INDEX_def split: option.splits if_splits)

lemma localDay_utcOfLocal:
  assumes "0 \<le> r" and "r < msPerDay"
  shows "localDay env (utcOfLocal env (d * msPerDay + r)) = d"
proof -
  have "localTime env (utcOfLocal env (d * msPerDay + r)) = d * msPerDay + r"
    by (simp add: localTime_def utcOfLocal_def)
  moreover have "(d * msPerDay + r) div msPerDay = d"
    using assms by (simp add: msPerDay_def)
  ultimately show ?thesis
    by (simp add: localDay_def)
qed

lemma tz_bound:
  assumes "\<bar>tzOffsetMinutes env\<bar> \<le> 1440"
  shows "\<bar>tzOffsetMinutes env * msPerMinute\<bar> \<le> 86400000"
  using assms by (simp add: msPerMinute_def abs_mult)

lemma event_start:
  assumes tz: "\<bar>tzOffsetMinutes env\<bar> \<le> 1440"
    and day0: "0 \<le> localDay env t0" "localDay env t0 \<le> 100000"
    and k: "- 100000 \<le> k" "k \<le> 99000000"
  shows "setHours7 env (setDatePlus env k (Some t0))
         = Some (utcOfLocal env ((localDay env t0 + k) * msPerDay + 7 * 3600000))"
proof -
  define r where "r = localTime env t0 mod msPerDay"
  have r: "0 \<le> r" "r < msPerDay"
    by (simp_all add: r_def msPerDay_def)
  define u where "u = utcOfLocal env ((localDay env t0 + k) * msPerDay + r)"
  have "\<bar>u\<bar> \<le> 8640000000000000"
    using tz_bound [OF tz] day0 k r
    unfolding u_def utcOfLocal_def msPerDay_def by (simp add: abs_le_iff)
  then have s1: "setDatePlus env k (Some t0) = Some u"
    by (simp add: setDatePlus_def timeClip_def u_def r_def)
  have ld: "localDay env u = localDay env t0 + k"
    unfolding u_def by (rule localDay_utcOfLocal [OF r])
  have "\<bar>utcOfLocal env ((localDay env t0 + k) * msPerDay + 7 * 3600000)\<bar> \<le> 8640000000000000"
    using tz_bound [OF tz] day0 k
    unfolding utcOfLocal_def msPerDay_def by (simp add: abs_le_iff)
  then show ?thesis
    unfolding s1 by (simp add: setHours7_def timeClip_def ld)
qed

lemma estimatedDurationMinutes_bounds:
  "0 \<le> estimatedDurationMinutes w \<and> estimatedDurationMinutes w \<le> 90"
  by (simp add: estimatedDurationMinutes_def Let_def)

lemma rowEvent_value:
  assumes tz: "\<bar>tzOffsetMinutes env\<bar> \<le> 1440"
    and day0: "0 \<le> localDay env t0" "localDay env t0 \<le> 100000"
    and wk: "0 \<le> weekNumber" "weekNumber \<le> 14000000"
    and off: "DAY_INDEX (toLowerCase (trim (orElse (cellAt row di) []))) = Some (DayOffset dayOffset)"
    and active: "\<not> isRestLikeWorkout (orElse (cellAt row wi) ''Run'')"
  shows "\<exists>nt. rowEvent env (Some t0) weekNumber di wi dti rti row
         = Some [\<lparr>CalendarWorkoutEvent.title =
                     ''Frunna W'' @ numberToString weekNumber @ '': ''
                     @ orElse (cellAt row wi) ''Run'',
                   startDate = toISOString
                     (utcOfLocal env ((localDay env t0 + ((weekNumber - 1) * 7 + int dayOffset))
                                       * msPerDay + 7 * 3600000)),
                   endDate = toISOString
                     (utcOfLocal env ((localDay env t0 + ((weekNumber - 1) * 7 + int dayOffset))
                                       * msPerDay + 7 * 3600000)
                      + estimatedDurationMinutes (orElse (cellAt row wi) ''Run'') * msPerMinute),
                   notes = nt\<rparr>]"
proof -
  define k where "k = (weekNumber - 1) * 7 + int dayOffset"
  define s where "s = utcOfLocal env ((localDay env t0 + ((weekNumber - 1) * 7 + int dayOffset))
                                       * msPerDay + 7 * 3600000)"
  define dur where "dur = estimatedDurationMinutes (orElse (cellAt row wi) ''Run'')"
  have "dayOffset \<le> 6"
    using off by (rule DAY_INDEX_le)
  then have k: "- 100000 \<le> k" "k \<le> 99000000"
    using wk by (simp_all add: k_def)
  have start: "setHours7 env (setDatePlus env ((weekNumber - 1) * 7 + int dayOffset) (Some t0))
               = Some s"
    using event_start [OF tz day0 k] unfolding s_def k_def .
  have dur: "0 \<le> dur" "dur \<le> 90"
    using estimatedDurationMinutes_bounds [of "orElse (cellAt row wi) ''Run''"]
    by (simp_all add: dur_def)
  have "\<bar>s + dur * msPerMinute\<bar> \<le> 8640000000000000"
    using tz_bound [OF tz] day0 k dur
    unfolding s_def k_def [symmetric] utcOfLocal_def msPerDay_def msPerMinute_def
    by (simp add: abs_le_iff)
  then have fin: "addMinutes (estimatedDurationMinutes (orElse (cellAt row wi) ''Run'')) (Some s)
                  = Some (s + dur * msPerMinute)"
    by (simp add: addMinutes_def timeClip_def dur_def)
  have "rowEvent env (Some t0) weekNumber di wi dti rti row
      = Some [\<lparr>CalendarWorkoutEvent.title =
                  ''Frunna W'' @ numberToString weekNumber @ '': ''
                  @ orElse (cellAt row wi) ''Run'',
                startDate = toISOString s,
                endDate = toISOString (s + dur * msPerMinute),
                notes = joinWith [CHR 0x0A]
                  (filter (\<lambda>s. s \<noteq> [])
                     [case dti of None \<Rightarrow> [] | Some i \<Rightarrow> orElse (cellAt row i) [],
                      case rti of None \<Rightarrow> [] | Some i \<Rightarrow> orElse (cellAt row i) []])\<rparr>]"
    by (simp only: rowEvent_def Let_def off option.case dayValue.case active if_False start fin)
  then show ?thesis
    unfolding s_def dur_def by blast
qed

lemma rowEvent_defined:
  assumes tz: "\<bar>tzOffsetMinutes env\<bar> \<le> 1440"
    and day0: "0 \<le> localDay env t0" "localDay env t0 \<le> 100000"
    and wk: "0 \<le> weekNumber" "weekNumber \<le> 14000000"
    and named: "toLowerCase (trim (orElse (cellAt row di) [])) \<in> set objectPrototypeKeys
                \<longrightarrow> isRestLikeWorkout (orElse (cellAt row wi) ''Run'')"
  shows "rowEvent env (Some t0) weekNumber di wi dti rti row \<noteq> None"
proof (cases "DAY_INDEX (toLowerCase (trim (orElse (cellAt row di) [])))")
  case None
  then show ?thesis
    by (simp add: rowEvent_def)
next
  case (Some v)
  show ?thesis
  proof (cases "isRestLikeWorkout (orElse (cellAt row wi) ''Run'')")
    case True
    with Some show ?thesis
      by (simp add: rowEvent_def)
  next
    case False
    with named have "toLowerCase (trim (orElse (cellAt row di) [])) \<notin> set objectPrototypeKeys"
      by blast
    with Some obtain dayOffset where "v = DayOffset dayOffset"
      using DAY_INDEX_inherited by (cases v) auto
    with Some have off: "DAY_INDEX (toLowerCase (trim (orElse (cellAt row di) [])))
                         = Some (DayOffset dayOffset)"
      by simp
    from rowEvent_value [OF tz day0 wk off False, of dti rti] show ?thesis
      by auto
  qed
qed

lemma foldl_pushEvents:
  assumes "\<forall>row\<in>set rws. f row \<noteq> None"
  shows "foldl (\<lambda>acc row. pushEvents acc (f row)) (Some acc) rws
         = Some (acc @ concat (map (\<lambda>row. the (f row)) rws))"
  using assms
proof (induction rws arbitrary: acc)
  case Nil
  show ?case by simp
next
  case (Cons row rws)
  from Cons.prems obtain ns where ns: "f row = Some ns"
    by auto
  from Cons.prems have rest: "\<forall>row\<in>set rws. f row \<noteq> None"
    by simp
  show ?case
    using Cons.IH [OF rest, of "acc @ ns"] ns by (simp add: pushEvents_def)
qed

text \<open>The week number read from a title is never negative.\<close>

lemma digitValue_nonneg: "0 \<le> digitValue c"
  by (auto simp: digitValue_def split: option.splits if_splits)

lemma decimalValue_nonneg: "0 \<le> decimalValue ds"
proof -
  have "0 \<le> foldl (\<lambda>acc c. 10 * acc + digitValue c) acc ds" if "0 \<le> acc" for acc
    using that
  proof (induction ds arbitrary: acc)
    case Nil
    then show ?case by simp
  next
    case (Cons c cs)
    have "0 \<le> 10 * acc + digitValue c"
      using Cons.prems digitValue_nonneg [of c] by simp
    then show ?case
      using Cons.IH by simp
  qed
  then show ?thesis
    by (simp add: decimalValue_def)
qed

lemma isDigit_plain: "isDigit c \<Longrightarrow> \<not> isWhiteSpace c \<and> c \<noteq> CHR ''-''"
  by (auto simp: isDigit_def isWhiteSpace_def)

lemma parseInt10_digits:
  assumes "ds \<noteq> []" and "isDigit (hd ds)" and "parseInt10 ds = Finite n"
  shows "0 \<le> n"
proof -
  obtain c cs where ds: "ds = c # cs"
    using assms(1) by (cases ds) auto
  with assms(2) have c: "\<not> isWhiteSpace c" "c \<noteq> CHR ''-''"
    using isDigit_plain by auto
  then have "trimStart ds = ds"
    by (simp add: trimStart_def ds)
  with assms(3) c show ?thesis
    using decimalValue_nonneg
    by (auto simp: parseInt10_def Let_def ds split: if_splits)
qed

lemma matchWeekAt_digits:
  assumes "matchWeekAt s = Some ds"
  shows "ds \<noteq> [] \<and> isDigit (hd ds)"
proof -
  from assms obtain r where ds: "ds = takeWhile isDigit r" and ne: "ds \<noteq> []"
    by (auto simp: matchWeekAt_def Let_def split: if_splits)
  from ne have "hd ds \<in> set ds"
    by simp
  then have "isDigit (hd ds)"
    unfolding ds by (rule set_takeWhileD [THEN conjunct2])
  with ne show ?thesis
    by simp
qed

lemma firstWeekMatch_digits:
  assumes "firstWeekMatch s = Some ds"
  shows "ds \<noteq> [] \<and> isDigit (hd ds)"
  using assms
proof (induction s)
  case Nil
  then show ?case
    using matchWeekAt_digits by simp
next
  case (Cons c cs)
  then show ?case
    using matchWeekAt_digits by (cases "matchWeekAt (c # cs)") simp_all
qed

lemma extractWeekNumber_nonneg:
  assumes "0 \<le> fallback"
  shows "0 \<le> extractWeekNumber ttl fallback"
proof (cases "firstWeekMatch ttl")
  case None
  with assms show ?thesis
    by (simp add: extractWeekNumber_def)
next
  case (Some ds)
  from firstWeekMatch_digits [OF Some] have ds: "ds \<noteq> []" "isDigit (hd ds)"
    by simp_all
  show ?thesis
    using assms Some parseInt10_digits [OF ds]
    by (cases "parseInt10 ds") (simp_all add: extractWeekNumber_def)
qed

lemma extractWeekNumber_Week2: "extractWeekNumber ''Week 2'' fallback = 2"
proof -
  have "firstWeekMatch ''Week 2'' = Some ''2''"
    by code_simp
  moreover have "parseInt10 ''2'' = Finite 2"
    by code_simp
  ultimately show ?thesis
    by (simp add: extractWeekNumber_def)
qed

lemma days_2024: "daysFromCivil 2024 6 3 = 19877" "daysFromCivil 2024 6 12 = 19886"
  by (simp_all add: daysFromCivil_def)

text \<open>
  A table whose week number is at most 14000000 and which has no row in \<open>inheritedDayRows\<close>
  adds its events to those collected so far; no date leaves the range of valid dates.
\<close>

lemma tableEvents_value:
  assumes tz: "\<bar>tzOffsetMinutes env\<bar> \<le> 1440"
    and day0: "0 \<le> localDay env t0" "localDay env t0 \<le> 100000"
    and wk: "extractWeekNumber (DisplayPlanTable.title (fst p)) (int (snd p) + 1) \<le> 14000000"
    and named: "inheritedDayRows (fst p) = []"
    and di: "findIndex isDayHeader (headers (fst p)) = Some di"
    and wi: "findIndex isWorkoutHeader (headers (fst p)) = Some wi"
  shows "tableEvents env (Some t0) (Some acc) p
         = Some (acc @ concat (map (\<lambda>r. the (rowEvent env (Some t0)
                     (extractWeekNumber (DisplayPlanTable.title (fst p)) (int (snd p) + 1)) di wi
                     (findIndex isDetailsHeader (headers (fst p)))
                     (findIndex isRationaleHeader (headers (fst p))) r)) (rows (fst p))))"
proof -
  let ?w = "extractWeekNumber (DisplayPlanTable.title (fst p)) (int (snd p) + 1)"
  let ?f = "rowEvent env (Some t0) ?w di wi (findIndex isDetailsHeader (headers (fst p)))
              (findIndex isRationaleHeader (headers (fst p)))"
  have w0: "0 \<le> ?w"
    by (rule extractWeekNumber_nonneg) simp
  have "?f r \<noteq> None" if r: "r \<in> set (rows (fst p))" for r
  proof -
    have "toLowerCase (trim (orElse (cellAt r di) [])) \<in> set objectPrototypeKeys
          \<longrightarrow> isRestLikeWorkout (orElse (cellAt r wi) ''Run'')"
      using named r by (auto simp: inheritedDayRows_def di wi filter_empty_conv)
    then show ?thesis
      by (rule rowEvent_defined [OF tz day0 w0 wk])
  qed
  then have "\<forall>r\<in>set (rows (fst p)). ?f r \<noteq> None"
    by simp
  from foldl_pushEvents [OF this, of acc] show ?thesis
    by (simp add: tableEvents_def di wi Let_def)
qed

lemma tableEvents_defined:
  assumes tz: "\<bar>tzOffsetMinutes env\<bar> \<le> 1440"
    and day0: "0 \<le> localDay env t0" "localDay env t0 \<le> 100000"
    and wk: "extractWeekNumber (DisplayPlanTable.title (fst p)) (int (snd p) + 1) \<le> 14000000"
    and named: "inheritedDayRows (fst p) = []"
  shows "\<exists>new. tableEvents env (Some t0) (Some acc) p = Some (acc @ new)"
proof (cases "findIndex isDayHeader (headers (fst p))")
  case None
  then have "tableEvents env (Some t0) (Some acc) p = Some (acc @ [])"
    by (simp add: tableEvents_def)
  then show ?thesis ..
next
  case di: (Some di)
  show ?thesis
  proof (cases "findIndex isWorkoutHeader (headers (fst p))")
    case None
    with di have "tableEvents env (Some t0) (Some acc) p = Some (acc @ [])"
      by (simp add: tableEvents_def)
    then show ?thesis ..
  next
    case (Some wi)
    from tableEvents_value [OF tz day0 wk named di Some] show ?thesis ..
  qed
qed

lemma foldl_tableEvents:
  assumes tz: "\<bar>tzOffsetMinutes env\<bar> \<le> 1440"
    and day0: "0 \<le> localDay env t0" "localDay env t0 \<le> 100000"
    and ok: "\<forall>p\<in>set ps. extractWeekNumber (DisplayPlanTable.title (fst p)) (int (snd p) + 1)
                             \<le> 14000000
                           \<and> inheritedDayRows (fst p) = []"
  shows "\<exists>new. foldl (tableEvents env (Some t0)) (Some acc) ps = Some (acc @ new)"
  using ok
proof (induction ps arbitrary: acc)
  case Nil
  have "foldl (tableEvents env (Some t0)) (Some acc) [] = Some (acc @ [])"
    by simp
  then show ?case ..
next
  case (Cons p ps)
  from Cons.prems have "extractWeekNumber (DisplayPlanTable.title (fst p)) (int (snd p) + 1)
                          \<le> 14000000" and "inheritedDayRows (fst p) = []"
    by simp_all
  from tableEvents_defined [OF tz day0 this, of acc]
  obtain n1 where n1: "tableEvents env (Some t0) (Some acc) p = Some (acc @ n1)" ..
  from Cons.prems have "\<forall>p\<in>set ps.
      extractWeekNumber (DisplayPlanTable.title (fst p)) (int (snd p) + 1) \<le> 14000000
      \<and> inheritedDayRows (fst p) = []"
    by simp
  from Cons.IH [OF this, of "acc @ n1"]
  obtain n2 where "foldl (tableEvents env (Some t0)) (Some (acc @ n1)) ps = Some ((acc @ n1) @ n2)" ..
  then have "foldl (tableEvents env (Some t0)) (Some acc) (p # ps) = Some (acc @ (n1 @ n2))"
    by (simp add: n1)
  then show ?case ..
qed

text \<open>
  Claim C7, as amended. Let the plan start have the local calendar date 2024-06-03, and let
  the tables be such that every week number is at most 14000000 and no row that is not
  rest-like has a day label naming a property inherited from \<open>Object.prototype\<close>
  (\<open>constructor\<close> or \<open>__proto__\<close>, in any letter case). For a table titled \<open>Week 2\<close>, at
  any position, containing a Wednesday row whose workout type contains \<open>interval\<close> but not
  \<open>long\<close>, and is not rest-like, \<open>toCalendarEvents\<close> returns a list that holds for that row
  an event that starts on 2024-06-12 at 07:00 local time and ends 70 minutes later.
\<close>

theorem toCalendarEvents_week2_wednesday_interval:
  assumes tz: "\<bar>tzOffsetMinutes env\<bar> \<le> 1440"
    and nonempty: "isoText \<noteq> []"
    and parse: "dateParse env isoText = Some t0"
    and startDay: "localDay env t0 = daysFromCivil 2024 6 3"
    and weeks: "\<forall>i<length tables.
                  extractWeekNumber (DisplayPlanTable.title (tables ! i)) (int i + 1) \<le> 14000000"
    and named: "\<forall>t\<in>set tables. inheritedDayRows t = []"
    and k: "k < length tables"
    and ttl: "DisplayPlanTable.title (tables ! k) = ''Week 2''"
    and di: "findIndex isDayHeader (headers (tables ! k)) = Some di"
    and wi: "findIndex isWorkoutHeader (headers (tables ! k)) = Some wi"
    and row: "row \<in> set (rows (tables ! k))"
    and wednesday: "DAY_INDEX (toLowerCase (trim (orElse (cellAt row di) []))) = Some (DayOffset 2)"
    and interval: "includesStr (toLowerCase (orElse (cellAt row wi) ''Run'')) ''interval''"
    and notlong: "\<not> includesStr (toLowerCase (orElse (cellAt row wi) ''Run'')) ''long''"
    and notrest: "\<not> isRestLikeWorkout (orElse (cellAt row wi) ''Run'')"
  shows "\<exists>evs. toCalendarEvents env tables (Some isoText) = Some evs
           \<and> (\<exists>ev\<in>set evs.
                 CalendarWorkoutEvent.title ev = ''Frunna W2: '' @ orElse (cellAt row wi) ''Run''
                 \<and> startDate ev = toISOString (localInstant env 2024 6 12 7 0)
                 \<and> endDate ev = toISOString (localInstant env 2024 6 12 7 0 + 70 * msPerMinute))"
proof -
  define table where "table = tables ! k"
  let ?f = "rowEvent env (Some t0) 2 di wi (findIndex isDetailsHeader (headers table))
              (findIndex isRationaleHeader (headers table))"
  let ?step = "tableEvents env (Some t0)"
  have day0: "0 \<le> localDay env t0" "localDay env t0 \<le> 100000"
    by (simp_all add: startDay days_2024)
  have ok: "\<forall>p\<in>set (indexed tables).
              extractWeekNumber (DisplayPlanTable.title (fst p)) (int (snd p) + 1) \<le> 14000000
              \<and> inheritedDayRows (fst p) = []"
  proof
    fix p assume p: "p \<in> set (indexed tables)"
    obtain t i where pt: "p = (t, i)" by (cases p)
    with p have i: "i < length tables" and t: "t = tables ! i"
      by (simp_all add: in_set_indexed)
    then have "t \<in> set tables"
      by simp
    with named have "inheritedDayRows (fst p) = []"
      by (simp add: pt)
    moreover from weeks i
    have "extractWeekNumber (DisplayPlanTable.title (fst p)) (int (snd p) + 1) \<le> 14000000"
      by (simp add: pt t)
    ultimately show "extractWeekNumber (DisplayPlanTable.title (fst p)) (int (snd p) + 1)
                       \<le> 14000000 \<and> inheritedDayRows (fst p) = []"
      by simp
  qed
  have split: "indexed tables
               = take k (indexed tables) @ (table, k) # drop (Suc k) (indexed tables)"
    using id_take_nth_drop [of k "indexed tables"] k
    by (simp add: length_indexed nth_indexed table_def)
  have pk: "(table, k) \<in> set (indexed tables)"
    using k by (simp add: in_set_indexed table_def)
  have "\<forall>p\<in>set (take k (indexed tables)).
          extractWeekNumber (DisplayPlanTable.title (fst p)) (int (snd p) + 1) \<le> 14000000
          \<and> inheritedDayRows (fst p) = []"
    using ok by (meson in_set_takeD)
  from foldl_tableEvents [OF tz day0 this, of "[]"]
  obtain n1 where n1: "foldl ?step (Some []) (take k (indexed tables)) = Some n1"
    by auto
  have wk: "extractWeekNumber (DisplayPlanTable.title (fst (table, k))) (int (snd (table, k)) + 1)
            \<le> 14000000"
    and nm: "inheritedDayRows (fst (table, k)) = []"
    using ok pk by blast+
  have week: "extractWeekNumber (DisplayPlanTable.title (fst (table, k))) (int (snd (table, k)) + 1)
              = 2"
    using ttl by (simp add: table_def extractWeekNumber_Week2)
  have n2: "?step (Some n1) (table, k) = Some (n1 @ concat (map (\<lambda>r. the (?f r)) (rows table)))"
    using tableEvents_value [OF tz day0 wk nm, of di wi n1] di wi
    unfolding week by (simp add: table_def)
  have "\<forall>p\<in>set (drop (Suc k) (indexed tables)).
          extractWeekNumber (DisplayPlanTable.title (fst p)) (int (snd p) + 1) \<le> 14000000
          \<and> inheritedDayRows (fst p) = []"
    using ok by (meson in_set_dropD)
  from foldl_tableEvents [OF tz day0 this,
      of "n1 @ concat (map (\<lambda>r. the (?f r)) (rows table))"]
  obtain n3 where n3: "foldl ?step (Some (n1 @ concat (map (\<lambda>r. the (?f r)) (rows table))))
                         (drop (Suc k) (indexed tables))
                       = Some ((n1 @ concat (map (\<lambda>r. the (?f r)) (rows table))) @ n3)" ..
  have "toCalendarEvents env tables (Some isoText) = foldl ?step (Some []) (indexed tables)"
    using nonempty parse by (simp add: toCalendarEvents_def)
  also have "\<dots> = foldl ?step (?step (foldl ?step (Some []) (take k (indexed tables))) (table, k))
                     (drop (Suc k) (indexed tables))"
    by (subst split) simp
  also have "\<dots> = Some ((n1 @ concat (map (\<lambda>r. the (?f r)) (rows table))) @ n3)"
    unfolding n1 n2 n3 ..
  finally have res: "toCalendarEvents env tables (Some isoText)
        = Some ((n1 @ concat (map (\<lambda>r. the (?f r)) (rows table))) @ n3)" .
  have dur: "estimatedDurationMinutes (orElse (cellAt row wi) ''Run'') = 70"
    using interval notlong by (simp add: estimatedDurationMinutes_def Let_def)
  have inst: "utcOfLocal env ((localDay env t0 + ((2 - 1) * 7 + int 2)) * msPerDay + 7 * 3600000)
        = localInstant env 2024 6 12 7 0"
    by (simp add: localInstant_def startDay days_2024)
  from rowEvent_value [OF tz day0 _ _ wednesday notrest, of 2
      "findIndex isDetailsHeader (headers table)" "findIndex isRationaleHeader (headers table)"]
  obtain nt where ev: "?f row
      = Some [\<lparr>CalendarWorkoutEvent.title = ''Frunna W2: '' @ orElse (cellAt row wi) ''Run'',
                startDate = toISOString (localInstant env 2024 6 12 7 0),
                endDate = toISOString (localInstant env 2024 6 12 7 0 + 70 * msPerMinute),
                notes = nt\<rparr>]"
    unfolding dur inst by (auto simp: numberToString_def digitsOf.simps digitChar_def)
  define e where "e = \<lparr>CalendarWorkoutEvent.title = ''Frunna W2: '' @ orElse (cellAt row wi) ''Run'',
                startDate = toISOString (localInstant env 2024 6 12 7 0),
                endDate = toISOString (localInstant env 2024 6 12 7 0 + 70 * msPerMinute),
                notes = nt\<rparr>"
  have "e \<in> set (the (?f row))"
    using ev by (simp add: e_def)
  with row have "e \<in> set (concat (map (\<lambda>r. the (?f r)) (rows table)))"
    by (auto simp: table_def)
  then have "e \<in> set ((n1 @ concat (map (\<lambda>r. the (?f r)) (rows table))) @ n3)"
    by simp
  moreover have "CalendarWorkoutEvent.title e = ''Frunna W2: '' @ orElse (cellAt row wi) ''Run''
      \<and> startDate e = toISOString (localInstant env 2024 6 12 7 0)
      \<and> endDate e = toISOString (localInstant env 2024 6 12 7 0 + 70 * msPerMinute)"
    by (simp add: e_def)
  ultimately show ?thesis
    using res by blast
qed

theorem toCalendarEvents_week2_wednesday_interval_witness:
  "dateParse utcEnv ''2024-06-03'' = Some (19877 * 86400000)
   \<and> localDay utcEnv (19877 * 86400000) = daysFromCivil 2024 6 3
   \<and> map (\<lambda>i. extractWeekNumber (DisplayPlanTable.title ([baseWeekTable, intervalWeekTable] ! i))
                  (int i + 1)) [0, 1] = [1, 2]
   \<and> list_all (\<lambda>t. inheritedDayRows t = []) [baseWeekTable, intervalWeekTable]
   \<and> includesStr (toLowerCase ''Intervals'') ''interval''
   \<and> (\<exists>evs. toCalendarEvents utcEnv [baseWeekTable, intervalWeekTable] (Some ''2024-06-03'')
               = Some evs
          \<and> list_ex (\<lambda>ev. CalendarWorkoutEvent.title ev = ''Frunna W2: Intervals''
                            \<and> startDate ev = ''2024-06-12T07:00:00.000Z''
                            \<and> endDate ev = ''2024-06-12T08:10:00.000Z'') evs)"
proof -
  let ?row = "[Some ''Wednesday'', Some ''Intervals'', Some ''6 x 800m'', Some ''Speed'']"
  let ?ts = "[baseWeekTable, intervalWeekTable]"
  have tz: "\<bar>tzOffsetMinutes utcEnv\<bar> \<le> 1440"
    by code_simp
  have nonempty: "''2024-06-03'' \<noteq> []"
    by simp
  have parse: "dateParse utcEnv ''2024-06-03'' = Some (19877 * 86400000)"
    by code_simp
  have startDay: "localDay utcEnv (19877 * 86400000) = daysFromCivil 2024 6 3"
    by code_simp
  have wn: "map (\<lambda>i. extractWeekNumber (DisplayPlanTable.title (?ts ! i)) (int i + 1)) [0, 1]
            = [1, 2]"
    by code_simp
  have "list_all (\<lambda>i. extractWeekNumber (DisplayPlanTable.title (?ts ! i)) (int i + 1)
                       \<le> 14000000) [0..<length ?ts]"
    by code_simp
  then have weeks: "\<forall>i<length ?ts.
      extractWeekNumber (DisplayPlanTable.title (?ts ! i)) (int i + 1) \<le> 14000000"
    unfolding list_all_iff by (metis atLeast_upt lessThan_iff)
  have inh: "list_all (\<lambda>t. inheritedDayRows t = []) ?ts"
    by code_simp
  then have named: "\<forall>t\<in>set ?ts. inheritedDayRows t = []"
    by (simp add: list_all_iff)
  have k: "1 < length ?ts"
    by simp
  have ttl: "DisplayPlanTable.title (?ts ! 1) = ''Week 2''"
    by code_simp
  have di: "findIndex isDayHeader (headers (?ts ! 1)) = Some 0"
    by code_simp
  have wi: "findIndex isWorkoutHeader (headers (?ts ! 1)) = Some 1"
    by code_simp
  have row: "?row \<in> set (rows (?ts ! 1))"
    by code_simp
  have wednesday: "DAY_INDEX (toLowerCase (trim (orElse (cellAt ?row 0) []))) = Some (DayOffset 2)"
    by code_simp
  have interval: "includesStr (toLowerCase (orElse (cellAt ?row 1) ''Run'')) ''interval''"
    by code_simp
  have notlong: "\<not> includesStr (toLowerCase (orElse (cellAt ?row 1) ''Run'')) ''long''"
    by code_simp
  have notrest: "\<not> isRestLikeWorkout (orElse (cellAt ?row 1) ''Run'')"
    by code_simp
  have i1: "includesStr (toLowerCase ''Intervals'') ''interval''"
    by code_simp
  have t: "''Frunna W2: '' @ orElse (cellAt ?row 1) ''Run'' = ''Frunna W2: Intervals''"
    by code_simp
  have s: "toISOString (localInstant utcEnv 2024 6 12 7 0) = ''2024-06-12T07:00:00.000Z''"
    by code_simp
  have e: "toISOString (localInstant utcEnv 2024 6 12 7 0 + 70 * msPerMinute)
           = ''2024-06-12T08:10:00.000Z''"
    by code_simp
  from toCalendarEvents_week2_wednesday_interval [OF tz nonempty parse startDay weeks named k ttl
      di wi row wednesday interval notlong notrest]
  show ?thesis
    unfolding t s e using parse startDay wn inh i1 by (auto simp: list_ex_iff)
qed

text \<open>
  The claim as stated fails: the workout type \<open>Long Intervals\<close> matches \<open>interval\<close>, but
  \<open>long\<close> is tested first, so the event lasts 90 minutes (07:00 to 08:30), not 70. And no
  event at all is returned, because converting an invalid date throws, when the table has
  another row with the day label \<open>constructor\<close>, or when another table belongs to a week
  beyond the range of valid dates.
\<close>

theorem toCalendarEvents_long_interval_90_minutes:
  "includesStr (toLowerCase ''Long Intervals'') ''interval''
   \<and> toISOString (localInstant utcEnv 2024 6 12 7 0 + 70 * msPerMinute)
       = ''2024-06-12T08:10:00.000Z''
   \<and> toCalendarEvents utcEnv [longIntervalWeekTable] (Some ''2024-06-03'')
       = Some [\<lparr>CalendarWorkoutEvent.title = ''Frunna W2: Long Intervals'',
                 startDate = ''2024-06-12T07:00:00.000Z'',
                 endDate = ''2024-06-12T08:30:00.000Z'',
                 notes = ''5 x 2 km'' @ [CHR 0x0A] @ ''Endurance''\<rparr>]
   \<and> toCalendarEvents utcEnv [inheritedDayWeekTable] (Some ''2024-06-03'') = None
   \<and> toCalendarEvents utcEnv [intervalWeekTable, farWeekTable] (Some ''2024-06-03'') = None"
  by code_simp

section \<open>Weekly orchestration\<close>

lemma sameResults_refl: "sameResults st st"
  by (simp add: sameResults_def)

lemma sameResults_trans: "sameResults a b \<Longrightarrow> sameResults b c \<Longrightarrow> sameResults a c"
  by (simp add: sameResults_def)

lemma attemptWeek_trace:
  assumes "attemptWeek env inp cap w md cmd pt st = (st', out)"
  shows "\<exists>new. requests st' = requests st @ new \<and> new \<noteq> []
           \<and> (\<forall>q\<in>set (butlast new). \<not> isFailure q)
           \<and> (case out of Some e \<Rightarrow> snd (last new) = Inl e | None \<Rightarrow> \<not> isFailure (last new))"
proof (cases "generate env (length (requests st)) pt")
  case (Inl caught)
  with assms have "requests st' = requests st @ [(pt, Inl caught)]" and "out = Some caught"
    by (auto simp: attemptWeek_def queryModel_def pushDebugPrompt_def Let_def)
  then show ?thesis
    by simp
next
  case (Inr answer)
  show ?thesis
  proof (cases "cap < int (countPlannedRunDays (normalizedTablesOf env answer w))")
    case False
    with Inr assms have "requests st' = requests st @ [(pt, Inr answer)]" and "out = None"
      by (auto simp: attemptWeek_def queryModel_def pushDebugPrompt_def finishWeek_def Let_def)
    then show ?thesis
      by (simp add: isFailure_def)
  next
    case True
    define cp where "cp = withRunDayCorrection pt w cap"
    show ?thesis
    proof (cases "generate env (Suc (length (requests st))) cp")
      case (Inl caught)
      with Inr True assms
      have "requests st' = requests st @ [(pt, Inr answer), (cp, Inl caught)]"
        and "out = Some caught"
        by (auto simp: attemptWeek_def queryModel_def pushDebugPrompt_def Let_def cp_def)
      then show ?thesis
        by (simp add: isFailure_def)
    next
      case inr2: (Inr answer2)
      with Inr True assms
      have "requests st' = requests st @ [(pt, Inr answer), (cp, Inr answer2)]"
        and "out = None"
        by (auto simp: attemptWeek_def queryModel_def pushDebugPrompt_def finishWeek_def
            Let_def cp_def)
      then show ?thesis
        by (simp add: isFailure_def)
    qed
  qed
qed

lemma attemptWeek_thrown:
  assumes "attemptWeek env inp cap w md cmd pt st = (st', Some e)"
  shows "sameResults st st'"
  using assms
  by (auto simp: attemptWeek_def queryModel_def pushDebugPrompt_def finishWeek_def Let_def
      sameResults_def split: sum.splits if_splits)


lemma failure_is_last:
  assumes new: "new \<noteq> []" "\<forall>q\<in>set (butlast new). \<not> isFailure q"
    and mem: "(p, Inl e) \<in> set new"
  shows "last new = (p, Inl e)"
proof -
  have "isFailure (p, Inl e)"
    by (simp add: isFailure_def)
  with new(2) have "(p, Inl e) \<notin> set (butlast new)"
    by blast
  moreover have "set new = insert (last new) (set (butlast new))"
    using new(1) by (metis append_butlast_last_id list.simps(15) rotate1.simps(2) set_rotate1)
  ultimately show ?thesis
    using mem by auto
qed

lemma attemptWeek_failure:
  assumes run: "attemptWeek env inp cap w md cmd pt st = (st', out)"
    and mem: "(p, Inl e) \<in> set (drop (length (requests st)) (requests st'))"
  shows "out = Some e \<and> last (requests st') = (p, Inl e) \<and> sameResults st st'"
proof -
  from attemptWeek_trace [OF run] obtain new
    where req: "requests st' = requests st @ new" and ne: "new \<noteq> []"
      and ok: "\<forall>q\<in>set (butlast new). \<not> isFailure q"
      and fin: "case out of Some e \<Rightarrow> snd (last new) = Inl e | None \<Rightarrow> \<not> isFailure (last new)"
    by blast
  from mem have "(p, Inl e) \<in> set new"
    by (simp add: req)
  from failure_is_last [OF ne ok this] have l: "last new = (p, Inl e)" .
  have out: "out = Some e"
    using fin l by (cases out) (simp_all add: isFailure_def)
  moreover have "last (requests st') = (p, Inl e)"
    using l ne by (simp add: req)
  moreover have "sameResults st st'"
    using run unfolding out by (rule attemptWeek_thrown)
  ultimately show ?thesis
    by simp
qed

lemma attemptWeek_no_failure:
  assumes run: "attemptWeek env inp cap w md cmd pt st = (st', None)"
  shows "(p, Inl e) \<notin> set (drop (length (requests st)) (requests st'))"
  using attemptWeek_failure [OF run] by auto

lemma attemptWeek_requests_grow:
  assumes "attemptWeek env inp cap w md cmd pt st = (st', out)"
  shows "\<exists>new. requests st' = requests st @ new"
  using attemptWeek_trace [OF assms] by blast

lemma weekIteration_failure:
  assumes run: "weekIteration env inp cap st w = (st', out)"
    and mem: "(p, Inl e) \<in> set (drop (length (requests st)) (requests st'))"
    and other: "\<not> looksLikeContextWindowError (caughtMessage e)"
  shows "out = Some e \<and> last (requests st') = (p, Inl e) \<and> sameResults st st'"
proof -
  define history where "history = Some (joinWith [CHR 0x0A, CHR 0x0A] (historySummaries st))"
  define fullPrompt where
    "fullPrompt = buildAdaptiveRunningCoachPrompt env (inp\<lparr>historyContext := history\<rparr>) w"
  define compactPrompt where
    "compactPrompt = buildAdaptiveRunningCoachPrompt env
                       ((toCompactInput inp)\<lparr>historyContext := history\<rparr>) w"
  obtain st1 o1
    where a1: "attemptWeek env inp cap w ''full'' ''full-corrective'' fullPrompt st = (st1, o1)"
    by (cases "attemptWeek env inp cap w ''full'' ''full-corrective'' fullPrompt st")
  show ?thesis
  proof (cases o1)
    case None
    with run a1 have "st' = st1" and "out = None"
      by (simp_all add: weekIteration_def Let_def history_def [symmetric] fullPrompt_def [symmetric])
    with attemptWeek_no_failure [OF a1 [unfolded None]] mem show ?thesis
      by simp
  next
    case (Some caught)
    show ?thesis
    proof (cases "looksLikeContextWindowError (caughtMessage caught)")
      case False
      with run a1 Some have eq: "st' = st1" "out = Some caught"
        by (simp_all add: weekIteration_def Let_def history_def [symmetric]
            fullPrompt_def [symmetric])
      from mem eq have "(p, Inl e) \<in> set (drop (length (requests st)) (requests st1))"
        by simp
      from attemptWeek_failure [OF a1 this] Some eq show ?thesis
        by simp
    next
      case True
      with run a1 Some
      have a2: "attemptWeek env inp cap w ''compact'' ''compact-corrective'' compactPrompt st1
                = (st', out)"
        by (simp add: weekIteration_def Let_def history_def [symmetric]
            fullPrompt_def [symmetric] compactPrompt_def [symmetric])
      from attemptWeek_requests_grow [OF a1] obtain new1
        where r1: "requests st1 = requests st @ new1" by blast
      from attemptWeek_requests_grow [OF a2] obtain new2
        where r2: "requests st' = requests st1 @ new2" by blast
      from mem have "(p, Inl e) \<in> set new1 \<or> (p, Inl e) \<in> set new2"
        by (auto simp: r1 r2)
      then show ?thesis
      proof
        assume "(p, Inl e) \<in> set new1"
        then have "(p, Inl e) \<in> set (drop (length (requests st)) (requests st1))"
          by (simp add: r1)
        from attemptWeek_failure [OF a1 this] Some have "caught = e"
          by simp
        with True other show ?thesis
          by simp
      next
        assume "(p, Inl e) \<in> set new2"
        then have "(p, Inl e) \<in> set (drop (length (requests st1)) (requests st'))"
          by (simp add: r2)
        from attemptWeek_failure [OF a2 this]
        have "out = Some e" "last (requests st') = (p, Inl e)" "sameResults st1 st'"
          by simp_all
        moreover have "sameResults st st1"
          using a1 unfolding Some by (rule attemptWeek_thrown)
        ultimately show ?thesis
          using sameResults_trans by blast
      qed
    qed
  qed
qed

lemma runWeeks_append:
  assumes "runWeeks env inp cap parts st ws = (st1, None)"
  shows "runWeeks env inp cap parts st (ws @ vs) = runWeeks env inp cap parts st1 vs"
  using assms
proof (induction ws arbitrary: st)
  case Nil
  then show ?case by simp
next
  case (Cons w ws)
  obtain s o1 where it: "weekIteration env inp cap st w = (s, o1)"
    by (cases "weekIteration env inp cap st w")
  show ?case
  proof (cases o1)
    case None
    with Cons.prems it
    have "runWeeks env inp cap parts (publishPartial parts s) ws = (st1, None)"
      by simp
    from Cons.IH [OF this] it None show ?thesis
      by simp
  next
    case (Some caught)
    with Cons.prems it show ?thesis
      by simp
  qed
qed

lemma runWeeks_published:
  assumes "runWeeks env inp cap parts st ws = (st1, None)" and "ws \<noteq> []"
  shows "planTables st1 = accumulatedTables st1"
  using assms
proof (induction ws arbitrary: st)
  case Nil
  then show ?case by simp
next
  case (Cons w ws)
  obtain s o1 where it: "weekIteration env inp cap st w = (s, o1)"
    by (cases "weekIteration env inp cap st w")
  show ?case
  proof (cases o1)
    case None
    with Cons.prems(1) it
    have rest: "runWeeks env inp cap parts (publishPartial parts s) ws = (st1, None)"
      by simp
    show ?thesis
    proof (cases "ws = []")
      case True
      with rest have "st1 = publishPartial parts s"
        by simp
      then show ?thesis
        by (simp add: publishPartial_def)
    next
      case False
      from Cons.IH [OF rest False] show ?thesis .
    qed
  next
    case (Some caught)
    with Cons.prems(1) it show ?thesis
      by simp
  qed
qed


lemma weekParts_split:
  assumes "k < planLengthWeeks inp"
  shows "weekParts inp = take k (weekParts inp) @ Suc k # drop (Suc k) (weekParts inp)"
proof -
  have "k < length (weekParts inp)"
    using assms by (simp add: weekParts_def)
  moreover have "weekParts inp ! k = Suc k"
    using assms by (simp add: weekParts_def)
  ultimately show ?thesis
    by (metis id_take_nth_drop)
qed

text \<open>
  Claim C3. Weeks 1 to \<open>k\<close> have completed and left the state \<open>st\<close>; in the pass for week
  \<open>k + 1\<close> a generation request fails with a value \<open>e\<close> whose message contains none of
  \<open>context window\<close>, \<open>model size\<close>, \<open>token\<close>. Then \<open>buildWeeklyPlan\<close> throws \<open>e\<close> itself, the
  failed request is the last request ever made (no further week is attempted), and the
  accumulated tables and digests and the published response and tables are those of the
  completed weeks: after at least one completed week the published tables are the
  accumulated ones.
\<close>

theorem buildWeeklyPlan_rethrows:
  assumes len: "planLengthWeeks inp \<le> 12"
    and k: "k < planLengthWeeks inp"
    and earlier: "runWeeks env inp (parseRunDayCap (runDaysPerWeek inp)) (weekParts inp)
                    (startState st0) (take k (weekParts inp)) = (st, None)"
    and iter: "weekIteration env inp (parseRunDayCap (runDaysPerWeek inp)) st (Suc k) = (st', out)"
    and failed: "(p, Inl e) \<in> set (drop (length (requests st)) (requests st'))"
    and other: "\<not> looksLikeContextWindowError (caughtMessage e)"
  shows "buildWeeklyPlan env st0 inp = (st', Inl e)
         \<and> last (requests st') = (p, Inl e)
         \<and> accumulatedTables st' = accumulatedTables st
         \<and> historySummaries st' = historySummaries st
         \<and> planTables st' = planTables st
         \<and> response st' = response st
         \<and> (0 < k \<longrightarrow> planTables st' = accumulatedTables st')"
proof -
  let ?cap = "parseRunDayCap (runDaysPerWeek inp)"
  let ?parts = "weekParts inp"
  from weekIteration_failure [OF iter failed other]
  have out: "out = Some e" and lst: "last (requests st') = (p, Inl e)"
    and same: "sameResults st st'"
    by simp_all
  have "runWeeks env inp ?cap ?parts (startState st0) ?parts
        = runWeeks env inp ?cap ?parts (startState st0)
            (take k ?parts @ Suc k # drop (Suc k) ?parts)"
    using weekParts_split [OF k] by simp
  also have "\<dots> = runWeeks env inp ?cap ?parts st (Suc k # drop (Suc k) ?parts)"
    by (rule runWeeks_append [OF earlier])
  also have "\<dots> = (st', Some e)"
    using iter out by simp
  finally have "buildWeeklyPlan env st0 inp = (st', Inl e)"
    using len by (simp add: buildWeeklyPlan_def)
  moreover have "0 < k \<longrightarrow> planTables st' = accumulatedTables st'"
  proof
    assume "0 < k"
    then have "take k ?parts \<noteq> []"
      using k by (simp add: weekParts_def)
    from runWeeks_published [OF earlier this] same show "planTables st' = accumulatedTables st'"
      by (simp add: sameResults_def)
  qed
  ultimately show ?thesis
    using lst same by (simp add: sameResults_def)
qed

theorem buildWeeklyPlan_rethrows_witness:
  "looksLikeContextWindowError (caughtMessage (ErrorObject ''Model unavailable'')) = False
   \<and> snd (buildWeeklyPlan demoEnv demoStart demoInput) = Inl (ErrorObject ''Model unavailable'')
   \<and> map snd (requests (fst (buildWeeklyPlan demoEnv demoStart demoInput)))
       = [Inr scenarioJsonText, Inl (ErrorObject ''Model unavailable'')]
   \<and> map promptWeek (nextDebugPrompts (fst (buildWeeklyPlan demoEnv demoStart demoInput))) = [1, 2]
   \<and> length (planTables (fst (buildWeeklyPlan demoEnv demoStart demoInput))) = 1
   \<and> length (historySummaries (fst (buildWeeklyPlan demoEnv demoStart demoInput))) = 1"
proof -
  define cap where "cap = parseRunDayCap (runDaysPerWeek demoInput)"
  define first where
    "first = runWeeks demoEnv demoInput (parseRunDayCap (runDaysPerWeek demoInput))
               (weekParts demoInput) (startState demoStart) (take 1 (weekParts demoInput))"
  define second where
    "second = weekIteration demoEnv demoInput (parseRunDayCap (runDaysPerWeek demoInput))
                (fst first) (Suc 1)"
  have len: "planLengthWeeks demoInput \<le> 12"
    by code_simp
  have k: "1 < planLengthWeeks demoInput"
    by code_simp
  have "snd first = None"
    unfolding first_def by code_simp
  then have earlier: "runWeeks demoEnv demoInput (parseRunDayCap (runDaysPerWeek demoInput))
      (weekParts demoInput) (startState demoStart) (take 1 (weekParts demoInput))
      = (fst first, None)"
    unfolding first_def by (simp add: prod_eq_iff)
  have iter: "weekIteration demoEnv demoInput (parseRunDayCap (runDaysPerWeek demoInput))
      (fst first) (Suc 1) = (fst second, snd second)"
    unfolding second_def by simp
  have failed: "(''Plan week 2'', Inl (ErrorObject ''Model unavailable''))
      \<in> set (drop (length (requests (fst first))) (requests (fst second)))"
    unfolding second_def first_def by code_simp
  have other: "\<not> looksLikeContextWindowError (caughtMessage (ErrorObject ''Model unavailable''))"
    by code_simp
  have r: "map snd (requests (fst second))
      = [Inr scenarioJsonText, Inl (ErrorObject ''Model unavailable'')]"
    unfolding second_def first_def by code_simp
  have d: "map promptWeek (nextDebugPrompts (fst second)) = [1, 2]"
    unfolding second_def first_def by code_simp
  have t: "length (planTables (fst first)) = 1"
    unfolding first_def by code_simp
  have h: "length (historySummaries (fst first)) = 1"
    unfolding first_def by code_simp
  from buildWeeklyPlan_rethrows [OF len k earlier iter failed other]
  show ?thesis
    using other r d t h by simp
qed

end
